theory Spec2Isabelle
  imports Main "HOL-Library.Word"
begin

unbundle bit_operations_syntax

section \<open>Machine types, errors and run-time panics\<close>

text \<open>
  Go's \<open>byte\<close>, \<open>uint64\<close> and \<open>int64\<close> are words: arithmetic wraps, \<open>unat\<close> reads a
  word unsigned and \<open>sint\<close> reads it in two's complement.
\<close>

type_synonym byte = "8 word"
type_synonym uint64 = "64 word"
type_synonym int64 = "64 word"

text \<open>
  The error values the package can return: the two errors of package \<open>io\<close>, and the
  errors built with \<open>errors.New\<close> and \<open>fmt.Errorf\<close> in gonut.go.
\<close>

datatype error =
    EOF
  | ErrUnexpectedEOF
  | ErrVarintOverflow                 \<comment> \<open>"varint overflows uint64"\<close>
  | ErrFileID error                   \<comment> \<open>"Error reading file id: %s"\<close>
  | ErrSecondMainHeader               \<comment> \<open>"Second Main header detected"\<close>
  | ErrUnknownStartCode "byte list"   \<comment> \<open>"Unknown start code %v"\<close>

text \<open>
  Run-time panics of the Go runtime. They are not error values: a panic unwinds through
  \<open>ReadEvent\<close> to the caller.
\<close>

datatype panic =
    NilPointerDereference
  | IndexOutOfRange nat nat           \<comment> \<open>index, length\<close>
  | MakesliceLenOutOfRange

text \<open>
  \<open>make([]T, n)\<close> panics when \<open>n\<close> elements of \<open>T\<close> need more than the runtime's
  \<open>maxAlloc\<close> bytes (\<open>1 << 48 = 281474976710656\<close> on 64-bit Linux); a smaller request is taken to succeed.
\<close>

definition maxAlloc :: int where
  "maxAlloc = 281474976710656"

definition makeslice_ok :: "int \<Rightarrow> uint64 \<Rightarrow> bool" where
  "makeslice_ok elemsize n = (uint n * elemsize \<le> maxAlloc)"

section \<open>Readers\<close>

text \<open>
  \<open>io.Reader\<close> has two implementations in a session. \<open>Source bs\<close> is the demuxer's byte
  source \<open>d.r\<close>, holding the bytes \<open>bs\<close> not yet delivered; it behaves as an in-memory
  reader (\<open>bytes.Reader\<close>): a read delivers as many bytes as asked for and available, and
  \<open>io.EOF\<close> once none is left. \<open>Bufio bs n buffered\<close> is a packet's reader
  \<open>bufio.NewReader(io.LimitReader(d.r, n))\<close>: \<open>bs\<close> is the shared source underneath,
  \<open>n\<close> the \<open>LimitedReader\<close>'s remaining count \<open>N\<close> and \<open>buffered\<close> the bytes the
  \<open>bufio.Reader\<close> has fetched and not yet handed out.
\<close>

datatype reader =
    Source "byte list"
  | Bufio "byte list" int "byte list"

fun underlying :: "reader \<Rightarrow> byte list" where
  "underlying (Source bs) = bs"
| "underlying (Bufio bs n buffered) = bs"

definition defaultBufSize :: nat where
  "defaultBufSize = 4096"

text \<open>\<open>bytes.Reader.Read\<close> for a buffer of \<open>n\<close> bytes: the result and the bytes left.\<close>

definition Source_Read :: "nat \<Rightarrow> byte list \<Rightarrow> (error + byte list) \<times> byte list" where
  "Source_Read n bs = (if bs = [] then (Inl EOF, bs) else (Inr (take n bs), drop n bs))"

text \<open>\<open>io.LimitedReader.Read\<close> for a buffer of \<open>n\<close> bytes, over the source.\<close>

definition LimitedReader_Read ::
  "nat \<Rightarrow> byte list \<Rightarrow> int \<Rightarrow> (error + byte list) \<times> byte list \<times> int" where
  "LimitedReader_Read n bs N =
     (if N \<le> 0 then (Inl EOF, bs, N)
      else case Source_Read (min n (nat N)) bs of
             (Inl e, bs') \<Rightarrow> (Inl e, bs', N)
           | (Inr got, bs') \<Rightarrow> (Inr got, bs', N - int (length got)))"

text \<open>
  \<open>Read\<close> for a non-empty buffer of \<open>n\<close> bytes. On a \<open>bufio.Reader\<close> with nothing
  buffered, a request of at least the buffer size reads directly from the limited reader;
  a smaller one fills the buffer with one read and copies from it.
\<close>

fun Read :: "nat \<Rightarrow> reader \<Rightarrow> (error + byte list) \<times> reader" where
  "Read n (Source bs) = (case Source_Read n bs of (res, bs') \<Rightarrow> (res, Source bs'))"
| "Read n (Bufio bs N buffered) =
     (if buffered = [] then
        (if defaultBufSize \<le> n then
           (case LimitedReader_Read n bs N of (res, bs', N') \<Rightarrow> (res, Bufio bs' N' []))
         else
           (case LimitedReader_Read defaultBufSize bs N of
              (Inl e, bs', N') \<Rightarrow> (Inl e, Bufio bs' N' [])
            | (Inr got, bs', N') \<Rightarrow> (Inr (take n got), Bufio bs' N' (drop n got))))
      else (Inr (take n buffered), Bufio bs N (drop n buffered)))"

text \<open>
  \<open>io.ReadAtLeast\<close>, with \<open>got\<close> the bytes read so far and \<open>want\<close> the minimum: it calls
  \<open>Read\<close> on the rest of the buffer until enough is read or a read fails. With too few
  bytes, \<open>io.EOF\<close> after some data becomes \<open>io.ErrUnexpectedEOF\<close>.
\<close>

function ReadAtLeast :: "reader \<Rightarrow> byte list \<Rightarrow> nat \<Rightarrow> byte list \<times> error option \<times> reader" where
  "ReadAtLeast r got want =
     (if want \<le> length got then (got, None, r)
      else case Read (want - length got) r of
             (Inr bs, r') \<Rightarrow> ReadAtLeast r' (got @ bs) want
           | (Inl e, r') \<Rightarrow>
               (got, Some (if got \<noteq> [] \<and> e = EOF then ErrUnexpectedEOF else e), r'))"
  by pat_completeness auto
termination
proof (relation "measure (\<lambda>(r, got, want). want - length got)")
  show "wf (measure (\<lambda>(r, got, want). want - length got))"
    by simp
next
  fix r r' :: reader and got bs :: "byte list" and want :: nat
    and res :: "error + byte list"
  assume more: "\<not> want \<le> length got"
    and x: "(res, r') = Read (want - length got) r" "res = Inr bs"
  from x have rd: "Read (want - length got) r = (Inr bs, r')"
    by simp
  have "bs \<noteq> []"
  proof (cases r)
    case (Source s)
    with rd more show ?thesis
      by (auto simp: Source_Read_def split: if_splits)
  next
    case (Bufio s N buffered)
    with rd more show ?thesis
      by (auto simp: Source_Read_def LimitedReader_Read_def defaultBufSize_def
               split: if_splits prod.splits sum.splits)
  qed
  with more show "((r', got @ bs, want), (r, got, want))
      \<in> measure (\<lambda>(r, got, want). want - length got)"
    by (cases bs) auto
qed

declare ReadAtLeast.simps [simp del]

text \<open>\<open>io.ReadFull\<close> into a buffer of \<open>n\<close> bytes: the bytes read, the error, the reader.\<close>

definition ReadFull :: "reader \<Rightarrow> nat \<Rightarrow> byte list \<times> error option \<times> reader" where
  "ReadFull r n = ReadAtLeast r [] n"

text \<open>
  The buffer after \<open>io.ReadFull\<close>: Go allocates it zeroed, and the bytes read overwrite
  its beginning.
\<close>

definition buffer :: "nat \<Rightarrow> byte list \<Rightarrow> byte list" where
  "buffer n got = take n got @ replicate (n - length got) 0"

section \<open>Variable-length integers\<close>

text \<open>
  \<open>readUvarint\<close>: the loop \<open>for i := 0; i < 9; i++\<close>, with \<open>k\<close> the iterations left. A
  failed read returns the value accumulated so far with the error.
\<close>

fun readUvarint_loop :: "nat \<Rightarrow> uint64 \<Rightarrow> reader \<Rightarrow> uint64 \<times> error option \<times> reader" where
  "readUvarint_loop 0 x r = (x, Some ErrVarintOverflow, r)"
| "readUvarint_loop (Suc k) x r =
     (case ReadFull r 1 of
        (got, Some e, r') \<Rightarrow> (x, Some e, r')
      | (got, None, r') \<Rightarrow>
          (let b = buffer 1 got ! 0;
               x' = push_bit 7 x OR ucast (b AND 0x7f)
           in if b < 0x80 then (x', None, r') else readUvarint_loop k x' r'))"

definition readUvarint :: "reader \<Rightarrow> uint64 \<times> error option \<times> reader" where
  "readUvarint r = readUvarint_loop 9 0 r"

definition readVarint :: "reader \<Rightarrow> int64 \<times> error option \<times> reader" where
  "readVarint r =
     (case readUvarint r of
        (u, Some e, r') \<Rightarrow> (0, Some e, r')
      | (u, None, r') \<Rightarrow>
          (let u = u + 1
           in if u AND 1 \<noteq> 0 then (- 1 * drop_bit 1 u, None, r')
              else (drop_bit 1 u, None, r')))"

section \<open>Packets and the demuxer\<close>

text \<open>
  \<open>rawPacket\<close>: the packet's reader \<open>p.r\<close> and its sticky error \<open>p.err\<close>. Once the error
  is set, the packet's read methods return zero values without reading.
\<close>

record rawPacket =
  p_r :: reader
  p_err :: "error option"

definition p_readUvarint :: "rawPacket \<Rightarrow> uint64 \<times> rawPacket" where
  "p_readUvarint p =
     (if p_err p \<noteq> None then (0, p)
      else case readUvarint (p_r p) of
             (u, Some e, r') \<Rightarrow> (u, p\<lparr>p_r := r', p_err := Some e\<rparr>)
           | (u, None, r') \<Rightarrow> (u, p\<lparr>p_r := r'\<rparr>))"

definition p_readVarint :: "rawPacket \<Rightarrow> int64 \<times> rawPacket" where
  "p_readVarint p =
     (if p_err p \<noteq> None then (0, p)
      else case readVarint (p_r p) of
             (i, Some e, r') \<Rightarrow> (i, p\<lparr>p_r := r', p_err := Some e\<rparr>)
           | (i, None, r') \<Rightarrow> (i, p\<lparr>p_r := r'\<rparr>))"

text \<open>
  \<open>readVarBytes\<close> goes on after a failed length read: it allocates the (partial) length
  and reads into it, and an error of that read replaces the first one.
\<close>

definition p_readVarBytes :: "rawPacket \<Rightarrow> panic + (byte list \<times> rawPacket)" where
  "p_readVarBytes p =
     (if p_err p \<noteq> None then Inr ([], p)
      else case readUvarint (p_r p) of (byteCount, e1, r1) \<Rightarrow>
        (if \<not> makeslice_ok 1 byteCount then Inl MakesliceLenOutOfRange
         else case ReadFull r1 (unat byteCount) of (got, e2, r2) \<Rightarrow>
           Inr (buffer (unat byteCount) got,
                p\<lparr>p_r := r2, p_err := (case e2 of Some e \<Rightarrow> Some e | None \<Rightarrow> e1)\<rparr>)))"

subsection \<open>The main header\<close>

record Rational =
  numerator :: uint64
  denominator :: uint64

record frameInfo =
  fi_flags :: uint64
  fi_streams :: uint64
  fi_mul :: uint64
  fi_lsb :: uint64
  fi_ptsDelta :: int64
  fi_reservedCount :: uint64
  fi_matchTimeDelta :: int64
  fi_headerIdx :: uint64
  fi_streamID :: uint64

record mainHeader =
  Version :: uint64
  MinorVersion :: uint64
  StreamCount :: uint64
  MaxDistance :: uint64
  TimeBases :: "Rational list"
  Frames :: "frameInfo list"
  Flags :: uint64

definition flagKey :: uint64 where "flagKey = 1"
definition flagEOR :: uint64 where "flagEOR = 2"
definition flagCodedPts :: uint64 where "flagCodedPts = 8"
definition flagStreamID :: uint64 where "flagStreamID = 16"
definition flagSizeMSB :: uint64 where "flagSizeMSB = 32"
definition flagChecksum :: uint64 where "flagChecksum = 64"
definition flagReserved :: uint64 where "flagReserved = 128"
definition flagHeaderIdx :: uint64 where "flagHeaderIdx = 1024"
definition flagMatchTime :: uint64 where "flagMatchTime = 2048"
definition flagCoded :: uint64 where "flagCoded = 4096"
definition flagInvalid :: uint64 where "flagInvalid = 8192"

text \<open>The zero value of \<open>frameInfo\<close>, as \<open>make([]frameInfo, 256)\<close> gives it.\<close>

definition zeroFrameInfo :: frameInfo where
  "zeroFrameInfo = \<lparr>fi_flags = 0, fi_streams = 0, fi_mul = 0, fi_lsb = 0, fi_ptsDelta = 0,
     fi_reservedCount = 0, fi_matchTimeDelta = 0, fi_headerIdx = 0, fi_streamID = 0\<rparr>"

text \<open>
  The time-base loop \<open>for i := uint64(0); i < timeBaseCount; i++\<close>, with \<open>n\<close> the
  iterations left.
\<close>

fun readTimeBases :: "nat \<Rightarrow> rawPacket \<Rightarrow> Rational list \<times> rawPacket" where
  "readTimeBases 0 p = ([], p)"
| "readTimeBases (Suc n) p =
     (case p_readUvarint p of (num, p1) \<Rightarrow>
      case p_readUvarint p1 of (den, p2) \<Rightarrow>
      case readTimeBases n p2 of (tbs, p3) \<Rightarrow>
        (\<lparr>numerator = num, denominator = den\<rparr> # tbs, p3))"

text \<open>
  What one record of the frame table declares for its run: the values the fill loop
  stores in every slot (\<open>size\<close> is the base size of the first slot) and the run length.
\<close>

record tableRecord =
  tr_flags :: uint64
  tr_stream :: uint64
  tr_mul :: uint64
  tr_size :: uint64
  tr_pts :: int64
  tr_res :: uint64
  tr_match :: int64
  tr_headIdx :: uint64
  tr_count :: uint64

text \<open>
  The fill loop \<open>for j := uint64(0); j < count; j, i = j+1, i+1\<close> of one record, from
  the slot index \<open>i\<close> and the offset \<open>j\<close>. At the slot \<open>0x4E\<close> it stores the invalid flag
  and undoes the increment of \<open>j\<close> (\<open>j--\<close>, then the loop's \<open>j+1\<close>). Nothing in the loop
  compares \<open>i\<close> with the table's length: indexing past it is Go's index panic.
\<close>

function fillFrames ::
  "tableRecord \<Rightarrow> uint64 \<Rightarrow> nat \<Rightarrow> frameInfo list \<Rightarrow> panic + (frameInfo list \<times> nat)" where
  "fillFrames rc j i frames =
     (if j < tr_count rc then
        (if \<not> i < length frames then Inl (IndexOutOfRange i (length frames))
         else if i = 0x4E then
           fillFrames rc ((j - 1) + 1) (i + 1)
             (frames[i := (frames ! i)\<lparr>fi_flags := flagInvalid\<rparr>])
         else
           fillFrames rc (j + 1) (i + 1)
             (frames[i := (frames ! i)\<lparr>
                fi_flags := tr_flags rc,
                fi_streamID := tr_stream rc,
                fi_mul := tr_mul rc,
                fi_lsb := tr_size rc + j,
                fi_ptsDelta := tr_pts rc,
                fi_reservedCount := tr_res rc,
                fi_matchTimeDelta := tr_match rc,
                fi_headerIdx := tr_headIdx rc\<rparr>]))
      else Inr (frames, i))"
  by pat_completeness auto
termination
  by (relation "measure (\<lambda>(rc, j, i, frames). length frames - i)") auto

declare fillFrames.simps [simp del]

text \<open>The loop \<open>for j := uint64(8); j < fields; j++\<close> that skips unknown fields.\<close>

fun skipUvarints :: "nat \<Rightarrow> rawPacket \<Rightarrow> rawPacket" where
  "skipUvarints 0 p = p"
| "skipUvarints (Suc n) p = skipUvarints n (snd (p_readUvarint p))"

text \<open>
  The state the table loop carries from one record to the next: the packet, the
  defaults \<open>pts\<close>, \<open>mul\<close>, \<open>stream\<close>, \<open>match\<close>, \<open>headIdx\<close>, the slot index \<open>i\<close> and the
  table.
\<close>

record tableState =
  ts_p :: rawPacket
  ts_pts :: int64
  ts_mul :: uint64
  ts_stream :: uint64
  ts_match :: int64
  ts_headIdx :: uint64
  ts_i :: nat
  ts_frames :: "frameInfo list"

text \<open>The fields of one record, read in the order of the source (\<open>nfields\<close> is \<open>fields\<close>, \<open>size'\<close> is \<open>size\<close>).\<close>

definition readTableRecord :: "tableState \<Rightarrow> tableRecord \<times> rawPacket" where
  "readTableRecord st =
     (case p_readUvarint (ts_p st) of (flags, p) \<Rightarrow>
      case p_readUvarint p of (nfields, p) \<Rightarrow>
      case (if nfields > 0 then p_readVarint p else (ts_pts st, p)) of (pts, p) \<Rightarrow>
      case (if nfields > 1 then p_readUvarint p else (ts_mul st, p)) of (mul, p) \<Rightarrow>
      case (if nfields > 2 then p_readUvarint p else (ts_stream st, p)) of (stream, p) \<Rightarrow>
      case (if nfields > 3 then p_readUvarint p else (0, p)) of (size', p) \<Rightarrow>
      case (if nfields > 4 then p_readUvarint p else (0, p)) of (res, p) \<Rightarrow>
      case (if nfields > 5 then p_readUvarint p else (mul - size', p)) of (count, p) \<Rightarrow>
      case (if nfields > 6 then p_readVarint p else (ts_match st, p)) of (match, p) \<Rightarrow>
      case (if nfields > 7 then p_readUvarint p else (ts_headIdx st, p)) of (headIdx, p) \<Rightarrow>
        (\<lparr>tr_flags = flags, tr_stream = stream, tr_mul = mul, tr_size = size', tr_pts = pts,
          tr_res = res, tr_match = match, tr_headIdx = headIdx, tr_count = count\<rparr>,
         skipUvarints (unat nfields - 8) p))"

text \<open>One iteration of the table loop: read a record, fill its run.\<close>

definition tableStep :: "tableState \<Rightarrow> panic + tableState" where
  "tableStep st =
     (case readTableRecord st of (rc, p) \<Rightarrow>
      case fillFrames rc 0 (ts_i st) (ts_frames st) of
        Inl pn \<Rightarrow> Inl pn
      | Inr (frames, i) \<Rightarrow>
          Inr \<lparr>ts_p = p, ts_pts = tr_pts rc, ts_mul = tr_mul rc, ts_stream = tr_stream rc,
               ts_match = tr_match rc, ts_headIdx = tr_headIdx rc, ts_i = i,
               ts_frames = frames\<rparr>)"

text \<open>
  The table loop \<open>for i := 0; i < 256; { ... }\<close>. Only the fill loop advances \<open>i\<close>, so
  records with an empty run can repeat without end: \<open>None\<close> is the loop that never
  returns.
\<close>

partial_function (option) tableLoop :: "tableState \<Rightarrow> (panic + tableState) option" where
  "tableLoop st =
     (if ts_i st < 256 then
        (case tableStep st of
           Inl pn \<Rightarrow> Some (Inl pn)
         | Inr st' \<Rightarrow> tableLoop st')
      else Some (Inr st))"

declare tableLoop.simps [code]

text \<open>The loop \<open>for i := uint64(1); i < headerCount; i++\<close> over the elision headers.\<close>

fun skipVarBytes :: "nat \<Rightarrow> rawPacket \<Rightarrow> panic + rawPacket" where
  "skipVarBytes 0 p = Inr p"
| "skipVarBytes (Suc n) p =
     (case p_readVarBytes p of
        Inl pn \<Rightarrow> Inl pn
      | Inr (bs, p') \<Rightarrow> skipVarBytes n p')"

text \<open>
  \<open>readMainHeader\<close> returns the header pointer and \<open>p.err\<close>; here also the packet, whose
  reader shares the demuxer's source.
\<close>

definition readMainHeader ::
  "rawPacket \<Rightarrow> (panic + (mainHeader option \<times> error option) \<times> rawPacket) option" where
  "readMainHeader p =
     (if p_err p \<noteq> None then Some (Inr ((None, p_err p), p))
      else
        case p_readUvarint p of (version, p) \<Rightarrow>
        case (if version > 3 then p_readUvarint p else (0, p)) of (minor, p) \<Rightarrow>
        case p_readUvarint p of (streamCount, p) \<Rightarrow>
        case p_readUvarint p of (maxDistance, p) \<Rightarrow>
        case p_readUvarint p of (timeBaseCount, p) \<Rightarrow>
          if \<not> makeslice_ok 16 timeBaseCount then Some (Inl MakesliceLenOutOfRange)
          else
            case readTimeBases (unat timeBaseCount) p of (timeBases, p) \<Rightarrow>
            case tableLoop \<lparr>ts_p = p, ts_pts = 0, ts_mul = 1, ts_stream = 0,
                             ts_match = 1 - push_bit 62 1, ts_headIdx = 0, ts_i = 0,
                             ts_frames = replicate 256 zeroFrameInfo\<rparr> of
              None \<Rightarrow> None
            | Some (Inl pn) \<Rightarrow> Some (Inl pn)
            | Some (Inr st) \<Rightarrow>
                case p_readUvarint (ts_p st) of (headerCount, p) \<Rightarrow>
                case skipVarBytes (unat (headerCount + 1) - 1) p of
                  Inl pn \<Rightarrow> Some (Inl pn)
                | Inr p \<Rightarrow>
                    case p_readUvarint p of (flags, p) \<Rightarrow>
                      Some (Inr ((Some \<lparr>Version = version, MinorVersion = minor,
                                         StreamCount = streamCount, MaxDistance = maxDistance,
                                         TimeBases = timeBases, Frames = ts_frames st,
                                         Flags = flags\<rparr>,
                                  p_err p), p)))"

subsection \<open>Stream headers\<close>

type_synonym StreamClass = byte

definition VideoClass :: StreamClass where "VideoClass = 0"
definition AudioClass :: StreamClass where "AudioClass = 1"
definition SubtitlesClass :: StreamClass where "SubtitlesClass = 2"
definition UserData :: StreamClass where "UserData = 3"

record videoStreamHeader =
  width :: uint64
  height :: uint64
  sampleWidth :: uint64
  sampleHeight :: uint64
  colorSpaceType :: uint64

record auditStreamHeader =
  sampleRateNum :: uint64
  sampleRateDenom :: uint64
  channelCount :: uint64

record streamHeader =
  sh_streamID :: uint64
  sh_streamClass :: StreamClass
  sh_fourcc :: "byte list"
  sh_timeBaseID :: uint64
  sh_msbPtsShift :: uint64
  sh_maxPtsDistance :: uint64
  sh_decodeDelay :: uint64
  sh_streamFlags :: uint64
  sh_codecSpecific :: "byte list"
  sh_videoStreamHeader :: "videoStreamHeader option"
  sh_auditStreamHeader :: "auditStreamHeader option"

definition readVideoStreamHeader :: "rawPacket \<Rightarrow> videoStreamHeader \<times> rawPacket" where
  "readVideoStreamHeader p =
     (case p_readUvarint p of (w, p) \<Rightarrow>
      case p_readUvarint p of (h, p) \<Rightarrow>
      case p_readUvarint p of (sw, p) \<Rightarrow>
      case p_readUvarint p of (sh, p) \<Rightarrow>
      case p_readUvarint p of (cst, p) \<Rightarrow>
        (\<lparr>width = w, height = h, sampleWidth = sw, sampleHeight = sh, colorSpaceType = cst\<rparr>, p))"

definition readAuditStreamHeader :: "rawPacket \<Rightarrow> auditStreamHeader \<times> rawPacket" where
  "readAuditStreamHeader p =
     (case p_readUvarint p of (num, p) \<Rightarrow>
      case p_readUvarint p of (den, p) \<Rightarrow>
      case p_readUvarint p of (ch, p) \<Rightarrow>
        (\<lparr>sampleRateNum = num, sampleRateDenom = den, channelCount = ch\<rparr>, p))"

text \<open>\<open>StreamClass(p.readUvarint())\<close> keeps the low byte of the value read.\<close>

definition readStreamHeader ::
  "rawPacket \<Rightarrow> panic + ((streamHeader option \<times> error option) \<times> rawPacket)" where
  "readStreamHeader p =
     (if p_err p \<noteq> None then Inr ((None, p_err p), p)
      else
        case p_readUvarint p of (streamID, p) \<Rightarrow>
        case p_readUvarint p of (cls, p) \<Rightarrow>
        case p_readVarBytes p of Inl pn \<Rightarrow> Inl pn | Inr (fourcc, p) \<Rightarrow>
        case p_readUvarint p of (timeBaseID, p) \<Rightarrow>
        case p_readUvarint p of (msbPtsShift, p) \<Rightarrow>
        case p_readUvarint p of (maxPtsDistance, p) \<Rightarrow>
        case p_readUvarint p of (decodeDelay, p) \<Rightarrow>
        case p_readUvarint p of (streamFlags, p) \<Rightarrow>
        case p_readVarBytes p of Inl pn \<Rightarrow> Inl pn | Inr (codecSpecific, p) \<Rightarrow>
        case (if (ucast cls :: StreamClass) = VideoClass then
                (case readVideoStreamHeader p of (v, p) \<Rightarrow> (Some v, None, p))
              else if (ucast cls :: StreamClass) = AudioClass then
                (case readAuditStreamHeader p of (a, p) \<Rightarrow> (None, Some a, p))
              else (None, None, p)) of (video, audio, p) \<Rightarrow>
          Inr ((Some \<lparr>sh_streamID = streamID, sh_streamClass = ucast cls, sh_fourcc = fourcc,
                        sh_timeBaseID = timeBaseID, sh_msbPtsShift = msbPtsShift,
                        sh_maxPtsDistance = maxPtsDistance, sh_decodeDelay = decodeDelay,
                        sh_streamFlags = streamFlags, sh_codecSpecific = codecSpecific,
                        sh_videoStreamHeader = video, sh_auditStreamHeader = audio\<rparr>,
                p_err p), p))"

subsection \<open>Side data and info packets\<close>

text \<open>
  The implementations of interface \<open>sideData\<close>; each starts with the entry's name.
  \<open>sideUint64\<close> is built without a value: its \<open>value\<close> field stays zero.
\<close>

datatype sideData =
    sideUTF8 "byte list" "byte list"                  \<comment> \<open>name, value\<close>
  | sideGeneric "byte list" "byte list" "byte list"   \<comment> \<open>name, innerType, value\<close>
  | sideInt64 "byte list" int64                       \<comment> \<open>name, value\<close>
  | sideUint64 "byte list" uint64                     \<comment> \<open>name, value\<close>
  | sideTime "byte list" uint64                       \<comment> \<open>name, value\<close>
  | sideRational "byte list" int64 int64              \<comment> \<open>name, den, num\<close>

text \<open>The body of the loop of \<open>readSideData\<close>: one entry.\<close>

definition readSideEntry :: "rawPacket \<Rightarrow> panic + (sideData \<times> rawPacket)" where
  "readSideEntry p =
     (case p_readVarBytes p of Inl pn \<Rightarrow> Inl pn | Inr (name, p) \<Rightarrow>
      case p_readVarint p of (typeVal, p) \<Rightarrow>
        if typeVal = - 1 then
          (case p_readVarBytes p of Inl pn \<Rightarrow> Inl pn
           | Inr (val, p) \<Rightarrow> Inr (sideUTF8 name val, p))
        else if typeVal = - 2 then
          (case p_readVarBytes p of Inl pn \<Rightarrow> Inl pn | Inr (innerType, p) \<Rightarrow>
           case p_readVarBytes p of Inl pn \<Rightarrow> Inl pn
           | Inr (val, p) \<Rightarrow> Inr (sideGeneric name innerType val, p))
        else if typeVal = - 3 then
          (case p_readVarint p of (val, p) \<Rightarrow> Inr (sideInt64 name val, p))
        else if typeVal = - 4 then
          (case p_readUvarint p of (val, p) \<Rightarrow> Inr (sideTime name val, p))
        else if sint typeVal < - 4 then
          (case p_readVarint p of (num, p) \<Rightarrow> Inr (sideRational name (- typeVal - 4) num, p))
        else Inr (sideUint64 name 0, p))"

text \<open>The loop \<open>for i := uint64(0); i < count; i++\<close>, with \<open>n\<close> the iterations left.\<close>

fun readSideEntries :: "nat \<Rightarrow> rawPacket \<Rightarrow> panic + (sideData list \<times> rawPacket)" where
  "readSideEntries 0 p = Inr ([], p)"
| "readSideEntries (Suc n) p =
     (case readSideEntry p of Inl pn \<Rightarrow> Inl pn | Inr (e, p) \<Rightarrow>
      case readSideEntries n p of Inl pn \<Rightarrow> Inl pn | Inr (es, p) \<Rightarrow> Inr (e # es, p))"

definition readSideData :: "rawPacket \<Rightarrow> panic + (sideData list \<times> rawPacket)" where
  "readSideData p =
     (if p_err p \<noteq> None then Inr ([], p)
      else case p_readUvarint p of (count, p) \<Rightarrow>
        if \<not> makeslice_ok 16 count then Inl MakesliceLenOutOfRange
        else readSideEntries (unat count) p)"

record infoPacket =
  ip_streamID :: uint64
  ip_chapterID :: int64
  ip_chapterStart :: uint64
  ip_chapterLen :: uint64
  ip_metaData :: "sideData list"

definition readInfoPacket ::
  "rawPacket \<Rightarrow> panic + ((infoPacket option \<times> error option) \<times> rawPacket)" where
  "readInfoPacket p =
     (if p_err p \<noteq> None then Inr ((None, p_err p), p)
      else
        case p_readUvarint p of (streamID, p) \<Rightarrow>
        case p_readVarint p of (chapterID, p) \<Rightarrow>
        case p_readUvarint p of (chapterStart, p) \<Rightarrow>
        case p_readUvarint p of (chapterLen, p) \<Rightarrow>
        case readSideData p of Inl pn \<Rightarrow> Inl pn | Inr (metaData, p) \<Rightarrow>
          Inr ((Some \<lparr>ip_streamID = streamID, ip_chapterID = chapterID,
                        ip_chapterStart = chapterStart, ip_chapterLen = chapterLen,
                        ip_metaData = metaData\<rparr>,
                p_err p), p))"

subsection \<open>Sync points and the index\<close>

record syncPoint =
  globalKeyPts :: uint64
  backPtrDiv64 :: uint64

definition readSyncPoint :: "rawPacket \<Rightarrow> (syncPoint option \<times> error option) \<times> rawPacket" where
  "readSyncPoint p =
     (if p_err p \<noteq> None then ((None, p_err p), p)
      else
        case p_readUvarint p of (g, p) \<Rightarrow>
        case p_readUvarint p of (b, p) \<Rightarrow>
          ((Some \<lparr>globalKeyPts = g, backPtrDiv64 = b\<rparr>, p_err p), p))"

text \<open>\<open>index\<close> with its \<open>maxPTS\<close> left out (a float); \<open>readIndex\<close> reads nothing.\<close>

record index =
  syncpointPOSDiv16 :: "uint64 list"

definition readIndex :: "rawPacket \<Rightarrow> (index option \<times> error option) \<times> rawPacket" where
  "readIndex p = ((Some \<lparr>syncpointPOSDiv16 = []\<rparr>, None), p)"

subsection \<open>The demuxer\<close>

text \<open>
  \<open>Demuxer\<close>: the source \<open>d.r\<close>, the stored main header (a pointer, \<open>None\<close> for nil),
  the sticky error \<open>d.err\<close>, and whether \<open>readHeaderOnce\<close> has run.
\<close>

record Demuxer =
  d_r :: reader
  d_mainHeader :: "mainHeader option"
  d_err :: "error option"
  readHeaderOnce :: bool

definition NewDemuxer :: "reader \<Rightarrow> Demuxer" where
  "NewDemuxer r = \<lparr>d_r = r, d_mainHeader = None, d_err = None, readHeaderOnce = False\<rparr>"

definition d_readUvarint :: "Demuxer \<Rightarrow> uint64 \<times> Demuxer" where
  "d_readUvarint d =
     (if d_err d \<noteq> None then (0, d)
      else case readUvarint (d_r d) of
             (u, Some e, r') \<Rightarrow> (u, d\<lparr>d_r := r', d_err := Some e\<rparr>)
           | (u, None, r') \<Rightarrow> (u, d\<lparr>d_r := r'\<rparr>))"

definition d_readVarint :: "Demuxer \<Rightarrow> int64 \<times> Demuxer" where
  "d_readVarint d =
     (if d_err d \<noteq> None then (0, d)
      else case readVarint (d_r d) of
             (i, Some e, r') \<Rightarrow> (i, d\<lparr>d_r := r', d_err := Some e\<rparr>)
           | (i, None, r') \<Rightarrow> (i, d\<lparr>d_r := r'\<rparr>))"

definition fileID :: "byte list" where
  "fileID = [0x6E, 0x75, 0x74, 0x2F, 0x6D, 0x75, 0x6C, 0x74, 0x69, 0x6D, 0x65, 0x64, 0x69,
             0x61, 0x20, 0x63, 0x6F, 0x6E, 0x74, 0x61, 0x69, 0x6E, 0x65, 0x72, 0x00]"

definition mainStartCode :: "byte list" where
  "mainStartCode = [0x4E, 0x4D, 0x7A, 0x56, 0x1F, 0x5F, 0x04, 0xAD]"

definition streamStartCode :: "byte list" where
  "streamStartCode = [0x4E, 0x53, 0x11, 0x40, 0x5B, 0xF2, 0xF9, 0xDB]"

definition syncpointStartCode :: "byte list" where
  "syncpointStartCode = [0x4E, 0x4B, 0xE4, 0xAD, 0xEE, 0xCA, 0x45, 0x69]"

definition indexStartCode :: "byte list" where
  "indexStartCode = [0x4E, 0x58, 0xDD, 0x67, 0x2F, 0x23, 0xE6, 0x4E]"

definition infoStartCode :: "byte list" where
  "infoStartCode = [0x4E, 0x49, 0xAB, 0x68, 0xB5, 0x96, 0xBA, 0x78]"

text \<open>\<open>readFileHeader\<close> reads as many bytes as \<open>fileID\<close> has and does not compare them.\<close>

definition readFileHeader :: "Demuxer \<Rightarrow> error option \<times> Demuxer" where
  "readFileHeader d =
     (case ReadFull (d_r d) (length fileID) of
        (got, Some e, r') \<Rightarrow> (Some (ErrFileID e), d\<lparr>d_r := r'\<rparr>)
      | (got, None, r') \<Rightarrow> (None, d\<lparr>d_r := r'\<rparr>))"

record PacketHeader =
  code :: "byte list"
  packetSize :: uint64
  checksum :: "byte list"

definition readPacketHeader :: "Demuxer \<Rightarrow> (PacketHeader \<times> error option) \<times> Demuxer" where
  "readPacketHeader d =
     (case ReadFull (d_r d) 7 of
        (got, Some e, r1) \<Rightarrow>
          ((\<lparr>code = 0x4E # buffer 7 got, packetSize = 0, checksum = [0, 0, 0, 0]\<rparr>, Some e),
           d\<lparr>d_r := r1, d_err := Some e\<rparr>)
      | (got, None, r1) \<Rightarrow>
          (case readUvarint r1 of
             (sz, Some e, r2) \<Rightarrow>
               ((\<lparr>code = 0x4E # buffer 7 got, packetSize = sz, checksum = [0, 0, 0, 0]\<rparr>,
                 Some e),
                d\<lparr>d_r := r2, d_err := Some e\<rparr>)
           | (sz, None, r2) \<Rightarrow>
               (if sz > 4096 then
                  (case ReadFull r2 4 of
                     (csum, Some e, r3) \<Rightarrow>
                       ((\<lparr>code = 0x4E # buffer 7 got, packetSize = sz,
                          checksum = buffer 4 csum\<rparr>, Some e),
                        d\<lparr>d_r := r3, d_err := Some e\<rparr>)
                   | (csum, None, r3) \<Rightarrow>
                       ((\<lparr>code = 0x4E # buffer 7 got, packetSize = sz,
                          checksum = buffer 4 csum\<rparr>, d_err d),
                        d\<lparr>d_r := r3\<rparr>))
                else
                  ((\<lparr>code = 0x4E # buffer 7 got, packetSize = sz, checksum = [0, 0, 0, 0]\<rparr>,
                    d_err d),
                   d\<lparr>d_r := r2\<rparr>))))"

subsection \<open>Frames\<close>

record frame =
  f_streamID :: uint64
  f_codedPTS :: uint64
  f_dataSizeMsb :: uint64
  f_matchTimeDelta :: int64
  f_headerIdx :: uint64
  f_res :: uint64
  f_data :: "byte list"
  f_dataAccessed :: bool

text \<open>The loop \<open>for i := uint64(0); i < f.res; i++ { d.readUvarint() }\<close>.\<close>

fun d_skipUvarints :: "nat \<Rightarrow> Demuxer \<Rightarrow> Demuxer" where
  "d_skipUvarints 0 d = d"
| "d_skipUvarints (Suc n) d = d_skipUvarints n (snd (d_readUvarint d))"

text \<open>
  \<open>readFrame\<close>. The header \<open>h\<close> is a pointer: \<open>h.Frames\<close> on nil is Go's nil-pointer
  panic. The checksum and the payload are read with \<open>io.ReadFull\<close> on \<open>d.r\<close> directly,
  whatever \<open>d.err\<close> holds, and only their errors make the function return an error.
\<close>

definition readFrame ::
  "byte \<Rightarrow> mainHeader option \<Rightarrow> Demuxer \<Rightarrow> panic + ((error + frame) \<times> Demuxer)" where
  "readFrame c h d =
     (case d_err d of Some e \<Rightarrow> Inr (Inl e, d) | None \<Rightarrow>
      case h of None \<Rightarrow> Inl NilPointerDereference | Some mh \<Rightarrow>
      if \<not> unat c < length (Frames mh) then Inl (IndexOutOfRange (unat c) (length (Frames mh)))
      else
        let meta = Frames mh ! unat c in
        case (if fi_flags meta AND flagCoded > 0
              then (case d_readUvarint d of (codedFlags, d) \<Rightarrow> (fi_flags meta XOR codedFlags, d))
              else (fi_flags meta, d)) of (flags, d) \<Rightarrow>
        case (if flags AND flagStreamID > 0 then d_readUvarint d
              else (fi_streamID meta, d)) of (streamID, d) \<Rightarrow>
        case (if flags AND flagCodedPts > 0 then d_readUvarint d
              else (0, d)) of (codedPTS, d) \<Rightarrow>
        case (if flags AND flagSizeMSB > 0 then d_readUvarint d
              else (0, d)) of (dataSizeMsb, d) \<Rightarrow>
        let size' = (if flags AND flagSizeMSB > 0 then fi_lsb meta + fi_mul meta * dataSizeMsb
                     else fi_lsb meta) in
        case (if flags AND flagMatchTime > 0 then d_readVarint d
              else (fi_matchTimeDelta meta, d)) of (matchTimeDelta, d) \<Rightarrow>
        case (if flags AND flagHeaderIdx > 0 then d_readUvarint d
              else (fi_headerIdx meta, d)) of (headerIdx, d) \<Rightarrow>
        case (if flags AND flagReserved > 0 then d_readUvarint d
              else (0, d)) of (res, d) \<Rightarrow>
        let d = d_skipUvarints (unat res) d in
        case (if flags AND flagChecksum > 0 then ReadFull (d_r d) 4
              else ([], None, d_r d)) of
          (csum, Some e, r1) \<Rightarrow> Inr (Inl e, d\<lparr>d_r := r1, d_err := Some e\<rparr>)
        | (csum, None, r1) \<Rightarrow>
            if \<not> makeslice_ok 1 size' then Inl MakesliceLenOutOfRange
            else
              (case ReadFull r1 (unat size') of
                 (got, Some e, r2) \<Rightarrow> Inr (Inl e, d\<lparr>d_r := r2, d_err := Some e\<rparr>)
               | (got, None, r2) \<Rightarrow>
                   Inr (Inr \<lparr>f_streamID = streamID, f_codedPTS = codedPTS,
                              f_dataSizeMsb = dataSizeMsb, f_matchTimeDelta = matchTimeDelta,
                              f_headerIdx = headerIdx, f_res = res,
                              f_data = buffer (unat size') got, f_dataAccessed = False\<rparr>,
                        d\<lparr>d_r := r2\<rparr>)))"

subsection \<open>ReadEvent\<close>

datatype event =
    EvVideoStream streamHeader     \<comment> \<open>\<open>&videoStream{*header}\<close>\<close>
  | EvAudioStream streamHeader     \<comment> \<open>\<open>&audioStream{*header}\<close>\<close>
  | EvStreamHeader streamHeader    \<comment> \<open>\<open>header\<close>\<close>
  | EvFrame frame

text \<open>
  One pass through the body of the loop of \<open>ReadEvent\<close> either goes round again or
  returns an error or an event.
\<close>

datatype step =
    Continue Demuxer
  | Return "error + event" Demuxer

text \<open>
  The packet \<open>p\<close> reads through a \<open>bufio.Reader\<close> on an \<open>io.LimitReader\<close> on \<open>d.r\<close>: after
  the packet's decoder, \<open>d.r\<close> is where the packet's reads have left the source.
\<close>

definition newRawPacket :: "Demuxer \<Rightarrow> PacketHeader \<Rightarrow> rawPacket" where
  "newRawPacket d header =
     \<lparr>p_r = Bufio (underlying (d_r d)) (sint (packetSize header)) [], p_err = None\<rparr>"

definition afterPacket :: "Demuxer \<Rightarrow> rawPacket \<Rightarrow> Demuxer" where
  "afterPacket d p = d\<lparr>d_r := Source (underlying (p_r p))\<rparr>"

text \<open>
  The \<open>switch header.code\<close>. In the main-header case the error of \<open>readMainHeader\<close> is
  assigned to \<open>err\<close> and not looked at again.
\<close>

definition readPacket :: "Demuxer \<Rightarrow> PacketHeader \<Rightarrow> (panic + step) option" where
  "readPacket d header =
     (let p = newRawPacket d header in
      if code header = mainStartCode then
        (if d_mainHeader d \<noteq> None
         then Some (Inr (Return (Inl ErrSecondMainHeader) (d\<lparr>d_err := Some ErrSecondMainHeader\<rparr>)))
         else case readMainHeader p of
                None \<Rightarrow> None
              | Some (Inl pn) \<Rightarrow> Some (Inl pn)
              | Some (Inr ((h, err), p')) \<Rightarrow>
                  Some (Inr (Continue ((afterPacket d p')\<lparr>d_mainHeader := h\<rparr>))))
      else if code header = streamStartCode then
        (case readStreamHeader p of
           Inl pn \<Rightarrow> Some (Inl pn)
         | Inr ((h, Some e), p') \<Rightarrow>
             Some (Inr (Return (Inl e) ((afterPacket d p')\<lparr>d_err := Some e\<rparr>)))
         | Inr ((None, None), p') \<Rightarrow> Some (Inl NilPointerDereference)
         | Inr ((Some sh, None), p') \<Rightarrow>
             Some (Inr (Return
               (Inr (if sh_streamClass sh = VideoClass then EvVideoStream sh
                     else if sh_streamClass sh = AudioClass then EvAudioStream sh
                     else EvStreamHeader sh))
               (afterPacket d p'))))
      else if code header = infoStartCode then
        (case readInfoPacket p of
           Inl pn \<Rightarrow> Some (Inl pn)
         | Inr ((i, Some e), p') \<Rightarrow>
             Some (Inr (Return (Inl e) ((afterPacket d p')\<lparr>d_err := Some e\<rparr>)))
         | Inr ((i, None), p') \<Rightarrow> Some (Inr (Continue (afterPacket d p'))))
      else if code header = syncpointStartCode then
        (case readSyncPoint p of
           ((s, Some e), p') \<Rightarrow>
             Some (Inr (Return (Inl e) ((afterPacket d p')\<lparr>d_err := Some e\<rparr>)))
         | ((s, None), p') \<Rightarrow> Some (Inr (Continue (afterPacket d p'))))
      else if code header = indexStartCode then
        (case readIndex p of
           ((i, Some e), p') \<Rightarrow>
             Some (Inr (Return (Inl e) ((afterPacket d p')\<lparr>d_err := Some e\<rparr>)))
         | ((i, None), p') \<Rightarrow> Some (Inr (Continue (afterPacket d p'))))
      else
        Some (Inr (Return (Inl (ErrUnknownStartCode (code header)))
                     (d\<lparr>d_err := Some (ErrUnknownStartCode (code header))\<rparr>))))"

text \<open>The body of the loop after the test of \<open>d.err\<close>.\<close>

definition readUnit :: "Demuxer \<Rightarrow> (panic + step) option" where
  "readUnit d =
     (case ReadFull (d_r d) 1 of
        (got, Some e, r') \<Rightarrow> Some (Inr (Return (Inl e) (d\<lparr>d_r := r', d_err := Some e\<rparr>)))
      | (got, None, r') \<Rightarrow>
          (let nextByte = buffer 1 got ! 0; d = d\<lparr>d_r := r'\<rparr> in
           if nextByte = 0x4E then
             (case readPacketHeader d of
                ((header, Some e), d) \<Rightarrow> Some (Inr (Return (Inl e) (d\<lparr>d_err := Some e\<rparr>)))
              | ((header, None), d) \<Rightarrow> readPacket d header)
           else
             (case readFrame nextByte (d_mainHeader d) d of
                Inl pn \<Rightarrow> Some (Inl pn)
              | Inr (Inl e, d) \<Rightarrow> Some (Inr (Return (Inl e) (d\<lparr>d_err := Some e\<rparr>)))
              | Inr (Inr f, d) \<Rightarrow> Some (Inr (Return (Inr (EvFrame f)) d)))))"

text \<open>The loop \<open>for { ... }\<close> of \<open>ReadEvent\<close>; \<open>None\<close> when it never returns.\<close>

partial_function (option) ReadEvent_loop ::
  "Demuxer \<Rightarrow> (panic + (error + event) \<times> Demuxer) option" where
  "ReadEvent_loop d =
     (case d_err d of
        Some e \<Rightarrow> Some (Inr (Inl e, d))
      | None \<Rightarrow>
          (case readUnit d of
             None \<Rightarrow> None
           | Some (Inl pn) \<Rightarrow> Some (Inl pn)
           | Some (Inr (Continue d')) \<Rightarrow> ReadEvent_loop d'
           | Some (Inr (Return res d')) \<Rightarrow> Some (Inr (res, d'))))"

declare ReadEvent_loop.simps [code]

text \<open>
  \<open>ReadEvent\<close>: the result is the panic, or the error or event returned with the
  demuxer after the call.
\<close>

definition ReadEvent :: "Demuxer \<Rightarrow> (panic + (error + event) \<times> Demuxer) option" where
  "ReadEvent d =
     (if readHeaderOnce d then ReadEvent_loop d
      else
        (case readFileHeader (d\<lparr>readHeaderOnce := True\<rparr>) of
           (Some e, d') \<Rightarrow> ReadEvent_loop (d'\<lparr>d_err := Some e\<rparr>)
         | (None, d') \<Rightarrow> ReadEvent_loop d'))"

section \<open>Reading from the source\<close>

lemma ReadFull_Source:
  "ReadFull (Source bs) n =
     (if n = 0 then ([], None, Source bs)
      else if bs = [] then ([], Some EOF, Source [])
      else if length bs < n then (bs, Some ErrUnexpectedEOF, Source [])
      else (take n bs, None, Source (drop n bs)))"
  by (auto simp: ReadFull_def ReadAtLeast.simps [of _ "[]"] ReadAtLeast.simps [of _ "take n bs"]
        ReadAtLeast.simps [of _ "bs"] Source_Read_def min_def)

lemma ReadFull1_Source_Cons [simp]:
  "ReadFull (Source (b # bs)) (Suc 0) = ([b], None, Source bs)"
  by (simp add: ReadFull_Source)

lemma ReadFull1_Source_Nil [simp]:
  "ReadFull (Source []) (Suc 0) = ([], Some EOF, Source [])"
  by (simp add: ReadFull_Source)

lemma buffer1 [simp]: "buffer (Suc 0) [b] ! 0 = b"
  by (simp add: buffer_def)

lemma buffer_exact: "length got = n \<Longrightarrow> buffer n got = got"
  by (simp add: buffer_def)

section \<open>Properties of the varint readers\<close>

subsection \<open>An unsigned varint has at most 63 bits\<close>

lemma mask7: "(0x7f :: byte) = mask 7"
  by (simp add: mask_eq_exp_minus_1)

lemma bit_0x7f: "bit (0x7f :: byte) j \<Longrightarrow> j < 7"
  unfolding mask7 by (simp add: bit_mask_iff)

lemma uvarint_step_bits:
  fixes x :: uint64 and b :: byte
  assumes "take_bit n x = x"
  shows "take_bit (n + 7) (push_bit 7 x OR ucast (b AND 0x7f))
           = push_bit 7 x OR ucast (b AND 0x7f)"
proof (rule bit_eqI)
  fix i
  have x: "bit x j \<Longrightarrow> j < n" for j
  proof -
    have "bit (take_bit n x) j = (j < n \<and> bit x j)"
      by (rule bit_take_bit_iff)
    with assms show "bit x j \<Longrightarrow> j < n"
      by simp
  qed
  show "bit (take_bit (n + 7) (push_bit 7 x OR ucast (b AND 0x7f))) i
          = bit (push_bit 7 x OR ucast (b AND 0x7f)) i"
    using x [of "i - 7"] bit_0x7f [of i]
    by (auto simp: bit_simps)
qed

lemma take_bit_mono_self:
  fixes x :: uint64
  assumes "take_bit n x = x" and "n \<le> m"
  shows "take_bit m x = x"
proof -
  have "take_bit m (take_bit n x) = take_bit (min m n) x"
    by (rule take_bit_take_bit)
  with assms show ?thesis
    by (simp add: min_def)
qed

lemma readUvarint_loop_bits:
  "readUvarint_loop k x r = (y, e, r') \<Longrightarrow> take_bit (7 * (9 - k)) x = x \<Longrightarrow> k \<le> 9
     \<Longrightarrow> take_bit 63 y = y"
proof (induction k arbitrary: x r)
  case 0
  then show ?case by simp
next
  case (Suc k)
  let ?n = "7 * (9 - Suc k)"
  have n: "?n + 7 = 7 * (9 - k)" using Suc.prems(3) by simp
  obtain got e1 r1 where rf: "ReadFull r 1 = (got, e1, r1)" by (cases "ReadFull r 1")
  show ?case
  proof (cases e1)
    case (Some a)
    with Suc.prems rf have "y = x" by simp
    with Suc.prems(2) show ?thesis by (auto intro: take_bit_mono_self)
  next
    case None
    define x' where "x' = push_bit 7 x OR ucast ((buffer 1 got ! 0) AND 0x7f)"
    have x': "take_bit (7 * (9 - k)) x' = x'"
      using uvarint_step_bits [OF Suc.prems(2), of "buffer 1 got ! 0"] n by (simp add: x'_def)
    show ?thesis
    proof (cases "buffer 1 got ! 0 < 0x80")
      case True
      with Suc.prems(1) rf None have "y = x'" by (simp add: x'_def Let_def)
      with x' show ?thesis by (auto intro: take_bit_mono_self)
    next
      case False
      with Suc.prems(1) rf None have "readUvarint_loop k x' r1 = (y, e, r')"
        by (simp add: x'_def Let_def)
      then show ?thesis using Suc.IH x' Suc.prems(3) by simp
    qed
  qed
qed

lemma readUvarint_bits: "readUvarint r = (y, e, r') \<Longrightarrow> take_bit 63 y = y"
  unfolding readUvarint_def by (erule readUvarint_loop_bits) simp_all

lemma readUvarint_lt: "readUvarint r = (y, e, r') \<Longrightarrow> unat y < 2 ^ 63"
proof -
  assume "readUvarint r = (y, e, r')"
  then have a: "take_bit 63 y = y" by (rule readUvarint_bits)
  have "unat (take_bit 63 y) = take_bit 63 (unat y)" by (rule unsigned_take_bit_eq)
  with a have "unat y = take_bit 63 (unat y)" by simp
  also have "\<dots> < 2 ^ 63" by (rule take_bit_nat_less_exp)
  finally show ?thesis .
qed

subsection \<open>A terminated varint is read the same with bytes after it\<close>

lemma readUvarint_loop_append:
  "readUvarint_loop k acc (Source bs) = (x, None, Source []) \<Longrightarrow>
   readUvarint_loop k acc (Source (bs @ rest)) = (x, None, Source rest)"
proof (induction k arbitrary: acc bs)
  case 0
  then show ?case by simp
next
  case (Suc k)
  show ?case
  proof (cases bs)
    case Nil
    with Suc.prems show ?thesis by simp
  next
    case (Cons b bs')
    with Suc.prems Suc.IH show ?thesis
      by (auto simp: Let_def split: if_splits)
  qed
qed

subsection \<open>The bias of the signed varint\<close>

lemma uint_drop_bit1: "uint (drop_bit (Suc 0) (u :: uint64)) = uint u div 2"
  by (simp add: unsigned_drop_bit_eq drop_bit_eq_div uint_div_distrib)

lemma sint_drop_bit1: "sint (drop_bit (Suc 0) (u :: uint64)) = uint u div 2"
proof -
  have "uint u < 2 ^ 64" using uint_lt2p [of u] by simp
  then have a: "uint u div 2 < 2 ^ 63" by simp
  have b: "- (2 ^ 63) \<le> uint u div 2"
    by (rule order_trans [of _ 0]) simp_all
  have "signed_take_bit 63 (uint u div 2) = uint u div 2"
    using b a by (rule signed_take_bit_int_eq_self)
  then show ?thesis by (simp add: sint_uint uint_drop_bit1)
qed

lemma sint_neg_drop_bit1: "sint (- drop_bit (Suc 0) (u :: uint64)) = - (uint u div 2)"
proof -
  have "uint u < 2 ^ 64" using uint_lt2p [of u] by simp
  then have "uint u div 2 < 2 ^ 63" by simp
  then have b: "- (2 ^ 63) \<le> - (uint u div 2)" by simp
  have "- (uint u div 2) \<le> 0" by simp
  then have a: "- (uint u div 2) < 2 ^ 63" by (rule le_less_trans) simp
  have "signed_take_bit 63 (- (uint u div 2)) = - (uint u div 2)"
    using b a by (rule signed_take_bit_int_eq_self)
  then show ?thesis by (simp add: sint_word_minus sint_drop_bit1)
qed

lemma and1_odd: "((u :: uint64) AND 1 \<noteq> 0) = odd (uint u)"
  by (simp add: and_one_eq word_eq_iff_unsigned [where ?'a = int] uint_mod_distrib
        even_iff_mod_2_eq_zero)

lemma uint_succ_varint:
  assumes "readUvarint r = (x, e, r')"
  shows "uint (x + 1) = uint x + 1"
proof -
  have "unat x < 2 ^ 63" using assms by (rule readUvarint_lt)
  then have "unat x + unat (1 :: uint64) < 2 ^ LENGTH(64)" by simp
  then have "unat (x + 1) = unat x + unat (1 :: uint64)" by (simp only: unat_add_lem)
  then have "int (unat (x + 1)) = int (unat x) + 1" by simp
  then show ?thesis by (simp only: uint_nat)
qed

text \<open>
  C6. Whenever the unsigned read succeeds with value \<open>x\<close>, the signed read succeeds on
  the same bytes and, with \<open>u = x + 1\<close> (which does not wrap), returns \<open>-(u >> 1)\<close> for
  odd \<open>u\<close> and \<open>u >> 1\<close> for even \<open>u\<close>. The three vectors of the test decode to 1, -64
  and 65, and the byte after the terminated prefix stays in the source.
\<close>

theorem readVarint_bias_law:
  "(readUvarint r = (x, None, r') \<longrightarrow>
      (\<exists>v. readVarint r = (v, None, r') \<and>
           v = (if (x + 1) AND 1 \<noteq> 0 then - drop_bit 1 (x + 1) else drop_bit 1 (x + 1)) \<and>
           sint v = (if odd (uint x + 1) then - ((uint x + 1) div 2)
                     else (uint x + 1) div 2))) \<and>
   readVarint (Source [0x01, 0x02]) = (1, None, Source [0x02]) \<and>
   readVarint (Source [0x81, 0x00, 0x02]) = (- 64, None, Source [0x02]) \<and>
   readVarint (Source [0x81, 0x01, 0x02]) = (65, None, Source [0x02]) \<and>
   sint (1 :: int64) = 1 \<and> sint (- 64 :: int64) = - 64 \<and> sint (65 :: int64) = 65"
proof (intro conjI impI)
  assume rd: "readUvarint r = (x, None, r')"
  have u: "uint (x + 1) = uint x + 1" using rd by (rule uint_succ_varint)
  show "\<exists>v. readVarint r = (v, None, r') \<and>
           v = (if (x + 1) AND 1 \<noteq> 0 then - drop_bit 1 (x + 1) else drop_bit 1 (x + 1)) \<and>
           sint v = (if odd (uint x + 1) then - ((uint x + 1) div 2)
                     else (uint x + 1) div 2)"
    using rd
    by (auto simp: readVarint_def Let_def sint_drop_bit1 sint_neg_drop_bit1 and1_odd
             simp flip: u)
next
  show "readVarint (Source [0x01, 0x02]) = (1, None, Source [0x02])" by code_simp
  show "readVarint (Source [0x81, 0x00, 0x02]) = (- 64, None, Source [0x02])" by code_simp
  show "readVarint (Source [0x81, 0x01, 0x02]) = (65, None, Source [0x02])" by code_simp
qed simp_all

theorem readVarint_bias_law_witness:
  "readUvarint (Source [0x82, 0x02, 0xFF]) = (258, None, Source [0xFF]) \<and>
   (\<exists>v. readVarint (Source [0x82, 0x02, 0xFF]) = (v, None, Source [0xFF]) \<and> sint v = - 129)"
proof -
  have rd: "readUvarint (Source [0x82, 0x02, 0xFF]) = (258, None, Source [0xFF])"
    by code_simp
  from readVarint_bias_law [of "Source [0x82, 0x02, 0xFF]" 258 "Source [0xFF]"] rd
  obtain v where v: "readVarint (Source [0x82, 0x02, 0xFF]) = (v, None, Source [0xFF])"
      "sint v = (if odd (uint (258 :: uint64) + 1) then - ((uint (258 :: uint64) + 1) div 2)
                 else (uint (258 :: uint64) + 1) div 2)"
    by blast
  from v(2) have "sint v = - 129" by simp
  with rd v(1) show ?thesis by blast
qed

section \<open>A frame before the main header\<close>

lemma ReadFull_Source_append:
  "length pre = n \<Longrightarrow> ReadFull (Source (pre @ rest)) n = (pre, None, Source rest)"
  by (cases pre) (auto simp: ReadFull_Source)

lemma length_fileID: "length fileID = 25"
  by (simp add: fileID_def)

lemma readFileHeader_Source:
  "length hdr = length fileID \<Longrightarrow> d_r d = Source (hdr @ rest) \<Longrightarrow>
   readFileHeader d = (None, d\<lparr>d_r := Source rest\<rparr>)"
  by (simp add: readFileHeader_def ReadFull_Source_append)

lemma ReadEvent_loop_frame_nil:
  assumes "d_err d = None" "d_mainHeader d = None" "d_r d = Source (b # rest)" "b \<noteq> 0x4E"
  shows "ReadEvent_loop d = Some (Inl NilPointerDereference)"
  using assms
  by (subst ReadEvent_loop.simps) (simp add: readUnit_def readFrame_def)

text \<open>
  C9. With no main header stored and no error recorded, a first byte other than \<open>0x4E\<close>
  is taken as a frame code and \<open>readFrame\<close> is called with the nil header: the table
  lookup is a nil-pointer panic, not an error value. This holds for any such state after
  the file header, and for a fresh demuxer whose source holds the 25 bytes of the file
  header and then that byte.
\<close>

theorem frame_before_main_header_panics:
  "(d_err d = None \<and> d_mainHeader d = None \<and> readHeaderOnce d \<and>
      d_r d = Source (b # rest) \<and> b \<noteq> 0x4E \<longrightarrow>
      ReadEvent d = Some (Inl NilPointerDereference)) \<and>
   (length hdr = length fileID \<and> b \<noteq> 0x4E \<longrightarrow>
      ReadEvent (NewDemuxer (Source (hdr @ b # rest))) = Some (Inl NilPointerDereference))"
proof (intro conjI impI)
  assume "d_err d = None \<and> d_mainHeader d = None \<and> readHeaderOnce d \<and>
      d_r d = Source (b # rest) \<and> b \<noteq> 0x4E"
  then show "ReadEvent d = Some (Inl NilPointerDereference)"
    by (simp add: ReadEvent_def ReadEvent_loop_frame_nil)
next
  assume a: "length hdr = length fileID \<and> b \<noteq> 0x4E"
  define d0 where "d0 = \<lparr>d_r = Source (hdr @ b # rest), d_mainHeader = None, d_err = None,
             readHeaderOnce = True\<rparr>"
  have "readFileHeader d0 = (None, d0\<lparr>d_r := Source (b # rest)\<rparr>)"
    using a by (intro readFileHeader_Source) (simp_all add: d0_def)
  with a show "ReadEvent (NewDemuxer (Source (hdr @ b # rest))) = Some (Inl NilPointerDereference)"
    by (simp add: ReadEvent_def NewDemuxer_def ReadEvent_loop_frame_nil d0_def)
qed

theorem frame_before_main_header_panics_witness:
  "length fileID = length fileID \<and> (0x00 :: byte) \<noteq> 0x4E \<and>
   ReadEvent (NewDemuxer (Source (fileID @ [0x00, 0x01]))) = Some (Inl NilPointerDereference)"
  using frame_before_main_header_panics [where b = "0x00" and hdr = fileID and rest = "[0x01]"]
  by simp

section \<open>The frame table\<close>

text \<open>
  A run of \<open>n\<close> slots that starts at the index \<open>i\<close> ends before \<open>runEnd i n\<close>: the slot
  \<open>0x4E\<close> inside it is passed over. \<open>runOffset i k\<close> is the offset within that run of the
  slot \<open>k\<close>, and \<open>runSlot rc j fi\<close> is the slot \<open>fi\<close> after the assignments of the fill
  loop at the offset \<open>j\<close>.
\<close>

definition runEnd :: "nat \<Rightarrow> nat \<Rightarrow> nat" where
  "runEnd i n = (if i \<le> 0x4E \<and> 0x4E < i + n then i + n + 1 else i + n)"

definition runOffset :: "nat \<Rightarrow> nat \<Rightarrow> nat" where
  "runOffset i k = (if i \<le> 0x4E \<and> 0x4E < k then k - i - 1 else k - i)"

definition runSlot :: "tableRecord \<Rightarrow> uint64 \<Rightarrow> frameInfo \<Rightarrow> frameInfo" where
  "runSlot rc j fi = fi\<lparr>
     fi_flags := tr_flags rc,
     fi_streamID := tr_stream rc,
     fi_mul := tr_mul rc,
     fi_lsb := tr_size rc + j,
     fi_ptsDelta := tr_pts rc,
     fi_reservedCount := tr_res rc,
     fi_matchTimeDelta := tr_match rc,
     fi_headerIdx := tr_headIdx rc\<rparr>"

lemma unat_succ_less:
  fixes j c :: uint64
  assumes "j < c"
  shows "unat (j + 1) = unat j + 1"
proof -
  have "unat j < unat c" using assms by (simp add: word_less_nat_alt)
  moreover have "unat c < 2 ^ 64" using unsigned_less [of c] by simp
  ultimately have "unat j + unat (1 :: uint64) < 2 ^ LENGTH(64)" by simp
  then have "unat (j + 1) = unat j + unat (1 :: uint64)" by (simp only: unat_add_lem)
  then show ?thesis by simp
qed

lemma fillFrames_done: "\<not> j < tr_count rc \<Longrightarrow> fillFrames rc j i frames = Inr (frames, i)"
  by (simp add: fillFrames.simps)

lemma fillFrames_panic_now:
  "j < tr_count rc \<Longrightarrow> \<not> i < length frames \<Longrightarrow>
   fillFrames rc j i frames = Inl (IndexOutOfRange i (length frames))"
  by (simp add: fillFrames.simps)

lemma fillFrames_marker:
  "j < tr_count rc \<Longrightarrow> 0x4E < length frames \<Longrightarrow>
   fillFrames rc j 0x4E frames =
     fillFrames rc j 0x4F (frames[0x4E := (frames ! 0x4E)\<lparr>fi_flags := flagInvalid\<rparr>])"
  by (subst fillFrames.simps) simp

lemma fillFrames_slot:
  "j < tr_count rc \<Longrightarrow> i < length frames \<Longrightarrow> i \<noteq> 0x4E \<Longrightarrow>
   fillFrames rc j i frames =
     fillFrames rc (j + 1) (Suc i) (frames[i := runSlot rc j (frames ! i)])"
  by (subst fillFrames.simps) (simp add: runSlot_def)

lemma runEnd_marker: "0 < n \<Longrightarrow> runEnd 0x4E n = runEnd 0x4F (n - 1) + 1"
  by (simp add: runEnd_def)

lemma runEnd_step: "0 < n \<Longrightarrow> i \<noteq> 0x4E \<Longrightarrow> runEnd i n = runEnd (Suc i) (n - 1)"
  by (auto simp: runEnd_def)


lemma fillFrames_length:
  "fillFrames rc j i frames = Inr (frames', i') \<Longrightarrow> length frames' = length frames"
proof (induction rc j i frames rule: fillFrames.induct)
  case (1 rc j i frames)
  show ?case
  proof (cases "j < tr_count rc")
    case False
    with "1.prems" show ?thesis by (simp add: fillFrames_done)
  next
    case True
    note lt = this
    show ?thesis
    proof (cases "i < length frames")
      case False
      with lt "1.prems" show ?thesis by (simp add: fillFrames_panic_now)
    next
      case True
      with lt "1.prems" "1.IH" show ?thesis
        by (subst (asm) fillFrames.simps) (auto split: if_splits)
    qed
  qed
qed

text \<open>A run that fits in the table is filled, and the index after it is \<open>runEnd\<close>.\<close>

lemma fillFrames_fits:
  "j \<le> tr_count rc \<Longrightarrow> runEnd i (unat (tr_count rc) - unat j) \<le> length frames \<Longrightarrow>
   \<exists>frames'. fillFrames rc j i frames = Inr (frames', runEnd i (unat (tr_count rc) - unat j))"
proof (induction rc j i frames rule: fillFrames.induct)
  case (1 rc j i frames)
  let ?n = "unat (tr_count rc) - unat j"
  show ?case
  proof (cases "j < tr_count rc")
    case False
    with "1.prems" have "j = tr_count rc" by simp
    then show ?thesis by (simp add: fillFrames_done runEnd_def)
  next
    case True
    note lt = this
    then have n: "0 < ?n" by (simp add: word_less_nat_alt)
    have il: "i < length frames"
      using "1.prems"(2) n by (auto simp: runEnd_def split: if_splits)
    show ?thesis
    proof (cases "i = 0x4E")
      case True
      have e: "runEnd i ?n = runEnd (i + 1) ?n"
        using True n unfolding runEnd_def by (simp split: if_splits) arith
      have "\<exists>frames'. fillFrames rc (j - 1 + 1) (i + 1)
              (frames[i := (frames ! i)\<lparr>fi_flags := flagInvalid\<rparr>])
            = Inr (frames', runEnd (i + 1) (unat (tr_count rc) - unat (j - 1 + 1)))"
        using lt il True "1.prems" e by (intro "1.IH"(1)) simp_all
      then show ?thesis
        using lt il True e by (subst fillFrames.simps) simp
    next
      case False
      have j1: "unat (j + 1) = unat j + 1" using lt by (rule unat_succ_less)
      have e: "runEnd i ?n = runEnd (i + 1) (unat (tr_count rc) - unat (j + 1))"
        using False n j1 by (simp add: runEnd_step)
      have "\<exists>frames'. fillFrames rc (j + 1) (i + 1)
              (frames[i := (frames ! i)\<lparr>
                fi_flags := tr_flags rc,
                fi_streamID := tr_stream rc,
                fi_mul := tr_mul rc,
                fi_lsb := tr_size rc + j,
                fi_ptsDelta := tr_pts rc,
                fi_reservedCount := tr_res rc,
                fi_matchTimeDelta := tr_match rc,
                fi_headerIdx := tr_headIdx rc\<rparr>])
            = Inr (frames', runEnd (i + 1) (unat (tr_count rc) - unat (j + 1)))"
        using lt il False "1.prems" e by (intro "1.IH"(2)) (simp_all add: inc_le)
      then show ?thesis
        using lt il False e by (subst fillFrames.simps) simp
    qed
  qed
qed


text \<open>A run that does not fit is not cut short: the fill loop indexes past the table.\<close>

lemma fillFrames_overrun:
  "j < tr_count rc \<Longrightarrow> i \<le> length frames \<Longrightarrow> 0x4E < length frames \<Longrightarrow>
   length frames < runEnd i (unat (tr_count rc) - unat j) \<Longrightarrow>
   fillFrames rc j i frames = Inl (IndexOutOfRange (length frames) (length frames))"
proof (induction rc j i frames rule: fillFrames.induct)
  case (1 rc j i frames)
  let ?n = "unat (tr_count rc) - unat j"
  note lt = "1.prems"(1)
  then have n: "0 < ?n" by (simp add: word_less_nat_alt)
  show ?case
  proof (cases "i < length frames")
    case False
    with "1.prems" have "i = length frames" by simp
    with lt show ?thesis by (simp add: fillFrames_panic_now)
  next
    case True
    note il = this
    show ?thesis
    proof (cases "i = 0x4E")
      case True
      have e: "runEnd i ?n = runEnd (i + 1) ?n"
        using True n unfolding runEnd_def by (simp split: if_splits) arith
      have "fillFrames rc (j - 1 + 1) (i + 1)
              (frames[i := (frames ! i)\<lparr>fi_flags := flagInvalid\<rparr>])
            = Inl (IndexOutOfRange (length (frames[i := (frames ! i)\<lparr>fi_flags := flagInvalid\<rparr>]))
                     (length (frames[i := (frames ! i)\<lparr>fi_flags := flagInvalid\<rparr>])))"
        using lt il True "1.prems" e by (intro "1.IH"(1)) simp_all
      then show ?thesis
        using lt il True by (subst fillFrames.simps) simp
    next
      case False
      have j1: "unat (j + 1) = unat j + 1" using lt by (rule unat_succ_less)
      have e: "runEnd i ?n = runEnd (i + 1) (unat (tr_count rc) - unat (j + 1))"
        using False n j1 by (simp add: runEnd_step)
      have more: "j + 1 < tr_count rc"
      proof (rule ccontr)
        assume "\<not> j + 1 < tr_count rc"
        with lt have "j + 1 = tr_count rc" using inc_le [OF lt] by simp
        then have "runEnd (i + 1) (unat (tr_count rc) - unat (j + 1)) = i + 1"
          by (simp add: runEnd_def)
        with e il "1.prems"(4) show False by simp
      qed
      let ?fr = "frames[i := (frames ! i)\<lparr>
                fi_flags := tr_flags rc,
                fi_streamID := tr_stream rc,
                fi_mul := tr_mul rc,
                fi_lsb := tr_size rc + j,
                fi_ptsDelta := tr_pts rc,
                fi_reservedCount := tr_res rc,
                fi_matchTimeDelta := tr_match rc,
                fi_headerIdx := tr_headIdx rc\<rparr>]"
      have "fillFrames rc (j + 1) (i + 1) ?fr = Inl (IndexOutOfRange (length ?fr) (length ?fr))"
        using lt il False "1.prems" e more by (intro "1.IH"(2)) simp_all
      then show ?thesis
        using lt il False by (subst fillFrames.simps) simp
    qed
  qed
qed

text \<open>What a completed run has written: nothing outside it, the invalid flag at the
  slot \<open>0x4E\<close>, and in every other slot the record's values with the base size plus the
  slot's offset.\<close>

lemma fillFrames_contents:
  "fillFrames rc j i frames = Inr (frames', i') \<Longrightarrow>
     i \<le> i' \<and>
     (\<forall>k. k < i \<or> i' \<le> k \<longrightarrow> frames' ! k = frames ! k) \<and>
     (\<forall>k. i \<le> k \<and> k < i' \<and> k \<noteq> 0x4E \<longrightarrow>
          frames' ! k = runSlot rc (j + of_nat (runOffset i k)) (frames ! k)) \<and>
     (i \<le> 0x4E \<and> 0x4E < i' \<longrightarrow>
          frames' ! 0x4E = (frames ! 0x4E)\<lparr>fi_flags := flagInvalid\<rparr>)"
proof (induction rc j i frames rule: fillFrames.induct)
  case (1 rc j i frames)
  show ?case
  proof (cases "j < tr_count rc")
    case False
    with "1.prems" show ?thesis by (auto simp: fillFrames_done)
  next
    case True
    note lt = this
    show ?thesis
    proof (cases "i < length frames")
      case False
      with lt "1.prems" show ?thesis by (simp add: fillFrames_panic_now)
    next
      case True
      note il = this
      show ?thesis
      proof (cases "i = 0x4E")
        case True
        let ?fr = "frames[i := (frames ! i)\<lparr>fi_flags := flagInvalid\<rparr>]"
        have rec: "fillFrames rc (j - 1 + 1) (i + 1) ?fr = Inr (frames', i')"
          using "1.prems" lt il True by (subst (asm) fillFrames.simps) simp
        note ih = "1.IH"(1) [OF lt _ True rec]
        have ih': "i + 1 \<le> i'"
          "\<And>k. k < i + 1 \<or> i' \<le> k \<Longrightarrow> frames' ! k = ?fr ! k"
          "\<And>k. i + 1 \<le> k \<Longrightarrow> k < i' \<Longrightarrow> k \<noteq> 0x4E \<Longrightarrow>
             frames' ! k = runSlot rc (j - 1 + 1 + of_nat (runOffset (i + 1) k)) (?fr ! k)"
          using ih il by auto
        show ?thesis
        proof (intro conjI allI impI)
          show "i \<le> i'" using ih'(1) by simp
        next
          fix k assume "k < i \<or> i' \<le> k"
          then show "frames' ! k = frames ! k"
            using ih'(1) ih'(2) [of k] by auto
        next
          fix k assume k: "i \<le> k \<and> k < i' \<and> k \<noteq> 0x4E"
          then have "runOffset (i + 1) k = runOffset i k"
            using True by (auto simp: runOffset_def)
          then show "frames' ! k = runSlot rc (j + of_nat (runOffset i k)) (frames ! k)"
            using ih'(3) [of k] k True by auto
        next
          show "frames' ! 0x4E = (frames ! 0x4E)\<lparr>fi_flags := flagInvalid\<rparr>"
            using ih'(2) [of "0x4E"] True il by simp
        qed
      next
        case False
        let ?fr = "frames[i := runSlot rc j (frames ! i)]"
        have rec: "fillFrames rc (j + 1) (Suc i) ?fr = Inr (frames', i')"
          using "1.prems" lt il False by (simp add: fillFrames_slot)
        have rec': "fillFrames rc (j + 1) (i + 1) (frames[i := (frames ! i)\<lparr>
                fi_flags := tr_flags rc,
                fi_streamID := tr_stream rc,
                fi_mul := tr_mul rc,
                fi_lsb := tr_size rc + j,
                fi_ptsDelta := tr_pts rc,
                fi_reservedCount := tr_res rc,
                fi_matchTimeDelta := tr_match rc,
                fi_headerIdx := tr_headIdx rc\<rparr>]) = Inr (frames', i')"
          using rec by (simp add: runSlot_def)
        note ih = "1.IH"(2) [OF lt _ False rec']
        have ih': "i + 1 \<le> i'"
          "\<And>k. k < i + 1 \<or> i' \<le> k \<Longrightarrow> frames' ! k = ?fr ! k"
          "\<And>k. i + 1 \<le> k \<Longrightarrow> k < i' \<Longrightarrow> k \<noteq> 0x4E \<Longrightarrow>
             frames' ! k = runSlot rc (j + 1 + of_nat (runOffset (i + 1) k)) (?fr ! k)"
          "i + 1 \<le> 0x4E \<Longrightarrow> 0x4E < i' \<Longrightarrow>
             frames' ! 0x4E = (?fr ! 0x4E)\<lparr>fi_flags := flagInvalid\<rparr>"
          using ih il by (auto simp: runSlot_def)
        show ?thesis
        proof (intro conjI allI impI)
          show "i \<le> i'" using ih'(1) by simp
        next
          fix k assume "k < i \<or> i' \<le> k"
          then show "frames' ! k = frames ! k"
            using ih'(1) ih'(2) [of k] by auto
        next
          fix k assume k: "i \<le> k \<and> k < i' \<and> k \<noteq> 0x4E"
          show "frames' ! k = runSlot rc (j + of_nat (runOffset i k)) (frames ! k)"
          proof (cases "k = i")
            case True
            then show ?thesis using ih'(2) [of k] il by (simp add: runOffset_def)
          next
            case ne: False
            with k False have "runOffset i k = Suc (runOffset (i + 1) k)"
              by (auto simp: runOffset_def)
            then show ?thesis using ih'(3) [of k] k ne by (simp add: ac_simps)
          qed
        next
          assume "i \<le> 0x4E \<and> 0x4E < i'"
          then show "frames' ! 0x4E = (frames ! 0x4E)\<lparr>fi_flags := flagInvalid\<rparr>"
            using ih'(4) False by simp
        qed
      qed
    qed
  qed
qed


lemma fillFrames_result:
  assumes "fillFrames rc 0 i frames = Inr (frames', i')"
    and "i \<le> length frames" and "0x4E < length frames"
  shows "i' = runEnd i (unat (tr_count rc)) \<and> i' \<le> length frames"
proof (cases "0 < tr_count rc")
  case False
  then have "tr_count rc = 0" by (simp add: word_gt_0)
  with assms show ?thesis by (simp add: fillFrames_done runEnd_def)
next
  case True
  show ?thesis
  proof (cases "length frames < runEnd i (unat (tr_count rc))")
    case True
    with \<open>0 < tr_count rc\<close> assms(2,3)
    have "fillFrames rc 0 i frames = Inl (IndexOutOfRange (length frames) (length frames))"
      by (intro fillFrames_overrun) simp_all
    with assms(1) show ?thesis by simp
  next
    case False
    then have "\<exists>fs. fillFrames rc 0 i frames = Inr (fs, runEnd i (unat (tr_count rc) - unat (0 :: uint64)))"
      by (intro fillFrames_fits) simp_all
    with assms(1) False show ?thesis by auto
  qed
qed

subsection \<open>The table loop\<close>

lemma tableStep_Inr:
  "tableStep st = Inr st' \<Longrightarrow>
   fillFrames (fst (readTableRecord st)) 0 (ts_i st) (ts_frames st)
     = Inr (ts_frames st', ts_i st') \<and>
   ts_p st' = snd (readTableRecord st)"
  by (auto simp: tableStep_def split: prod.splits sum.splits)

lemma tableStep_Inl:
  "tableStep st = Inl pn \<Longrightarrow>
   fillFrames (fst (readTableRecord st)) 0 (ts_i st) (ts_frames st) = Inl pn"
  by (auto simp: tableStep_def split: prod.splits sum.splits)

text \<open>
  The invariant of the table loop: the table has 256 slots, the index is within it, and
  once the index has passed the slot \<open>0x4E\<close> that slot holds the invalid flag.
\<close>

definition tableInv :: "tableState \<Rightarrow> bool" where
  "tableInv st =
     (length (ts_frames st) = 256 \<and> ts_i st \<le> 256 \<and>
      (if ts_i st \<le> 0x4E then True else fi_flags (ts_frames st ! 0x4E) = flagInvalid))"

lemma tableStep_inv:
  assumes "tableStep st = Inr st'" and "tableInv st"
  shows "tableInv st' \<and> ts_i st \<le> ts_i st' \<and>
         (\<forall>k. k < ts_i st \<longrightarrow> ts_frames st' ! k = ts_frames st ! k)"
proof -
  let ?rc = "fst (readTableRecord st)"
  have ff: "fillFrames ?rc 0 (ts_i st) (ts_frames st) = Inr (ts_frames st', ts_i st')"
    using assms(1) by (simp add: tableStep_Inr)
  have len: "length (ts_frames st) = 256" and i: "ts_i st \<le> 256"
    using assms(2) by (simp_all add: tableInv_def)
  have len': "length (ts_frames st') = 256"
    using fillFrames_length [OF ff] len by simp
  have i': "ts_i st' \<le> 256"
    using fillFrames_result [OF ff] len i by simp
  note c = fillFrames_contents [OF ff]
  have m: "ts_i st' \<le> 0x4E \<or> fi_flags (ts_frames st' ! 0x4E) = flagInvalid"
  proof (cases "ts_i st \<le> 0x4E")
    case True
    with c show ?thesis by (cases "ts_i st' \<le> 0x4E") auto
  next
    case False
    with assms(2) have "fi_flags (ts_frames st ! 0x4E) = flagInvalid"
      by (simp add: tableInv_def)
    moreover from False c have "ts_frames st' ! 0x4E = ts_frames st ! 0x4E" by auto
    ultimately show ?thesis by simp
  qed
  from len' i' m c show ?thesis by (auto simp: tableInv_def)
qed

lemma tableLoop_inv:
  assumes "tableLoop st = Some (Inr st')" and "tableInv st"
  shows "tableInv st' \<and> ts_i st' = 256 \<and>
     (\<forall>k. k < ts_i st \<longrightarrow> ts_frames st' ! k = ts_frames st ! k)"
proof -
  let ?Q = "\<lambda>st (y :: panic + tableState). \<forall>st'. y = Inr st' \<longrightarrow> tableInv st \<longrightarrow>
           tableInv st' \<and> ts_i st' = 256 \<and>
           (\<forall>k. k < ts_i st \<longrightarrow> ts_frames st' ! k = ts_frames st ! k)"
  have "?Q st (Inr st')"
  proof (rule tableLoop.raw_induct [where P = ?Q, OF _ assms(1)])
    fix loop st y
    assume IH: "\<And>x y. loop x = Some y \<Longrightarrow> ?Q x y"
      and eq: "(if ts_i st < 256
                then case tableStep st of Inl pn \<Rightarrow> Some (Inl pn) | Inr st' \<Rightarrow> loop st'
                else Some (Inr st)) = Some y"
    show "?Q st y"
    proof (intro allI impI)
      fix st' assume y: "y = Inr st'" and inv: "tableInv st"
      show "tableInv st' \<and> ts_i st' = 256 \<and>
           (\<forall>k. k < ts_i st \<longrightarrow> ts_frames st' ! k = ts_frames st ! k)"
      proof (cases "ts_i st < 256")
        case False
        with eq y have "st' = st" by simp
        with False inv show ?thesis by (simp add: tableInv_def)
      next
        case True
        with eq y obtain st1 where s1: "tableStep st = Inr st1" and l: "loop st1 = Some (Inr st')"
          by (auto split: sum.splits)
        note a = tableStep_inv [OF s1 inv]
        from IH [OF l] a have b: "tableInv st' \<and> ts_i st' = 256 \<and>
           (\<forall>k. k < ts_i st1 \<longrightarrow> ts_frames st' ! k = ts_frames st1 ! k)" by simp
        with a show ?thesis by auto
      qed
    qed
  qed
  with assms show ?thesis by simp
qed

lemma tableLoop_init:
  assumes "tableLoop \<lparr>ts_p = p, ts_pts = pts, ts_mul = mul, ts_stream = stream,
             ts_match = match, ts_headIdx = headIdx, ts_i = 0,
             ts_frames = replicate 256 zeroFrameInfo\<rparr> = Some (Inr st)"
  shows "length (ts_frames st) = 256 \<and> fi_flags (ts_frames st ! 0x4E) = flagInvalid"
  using tableLoop_inv [OF assms] by (simp add: tableInv_def)

lemma readMainHeader_table:
  assumes "readMainHeader p = Some (Inr ((Some h, e), p'))"
  shows "length (Frames h) = 256 \<and> fi_flags (Frames h ! 0x4E) = flagInvalid"
  using assms
  by (auto simp: readMainHeader_def
           split: if_splits prod.splits option.splits sum.splits dest!: tableLoop_init)


subsection \<open>Run lengths\<close>

lemma p_readUvarint_lt: "p_readUvarint p = (x, p') \<Longrightarrow> unat x < 2 ^ 63"
  by (auto simp: p_readUvarint_def split: if_splits prod.splits option.splits
           dest: readUvarint_lt)

lemma opt_readUvarint_lt:
  "unat (fst (if c then p_readUvarint p else (0, p))) < 2 ^ 63"
  by (cases "p_readUvarint p") (auto dest: p_readUvarint_lt)

lemma readTableRecord_size_lt: "unat (tr_size (fst (readTableRecord st))) < 2 ^ 63"
  unfolding readTableRecord_def case_prod_beta
  by (simp only: fst_conv tableRecord.simps opt_readUvarint_lt)

lemma unat_sub_wraps:
  fixes a b :: uint64
  assumes "a < b" and "unat b < 2 ^ 63"
  shows "2 ^ 63 < unat (a - b)"
proof -
  have ab: "unat a < unat b" using assms(1) by (simp add: word_less_nat_alt)
  have "unat (a - b) = (if unat b \<le> unat a then unat a - unat b
                         else unat a + 2 ^ size a - unat b)"
    by (rule unat_sub_if_size)
  with ab have "unat (a - b) = unat a + 2 ^ 64 - unat b"
    by (simp add: word_size)
  with assms(2) show ?thesis by simp
qed

lemma runEnd_ge: "i + n \<le> runEnd i n"
  by (simp add: runEnd_def)

lemma runEnd_0 [simp]: "runEnd i 0 = i"
  by (auto simp: runEnd_def)

lemma tableLoop_overrun:
  assumes "tableInv st" and "ts_i st < 256"
    and "256 < runEnd (ts_i st) (unat (tr_count (fst (readTableRecord st))))"
  shows "tableLoop st = Some (Inl (IndexOutOfRange 256 256))"
proof -
  let ?rc = "fst (readTableRecord st)"
  have len: "length (ts_frames st) = 256" using assms(1) by (simp add: tableInv_def)
  have pos: "0 < tr_count ?rc"
  proof (rule ccontr)
    assume "\<not> 0 < tr_count ?rc"
    then have "tr_count ?rc = 0" by (simp add: word_gt_0)
    with assms(2,3) show False by simp
  qed
  have "fillFrames ?rc 0 (ts_i st) (ts_frames st)
          = Inl (IndexOutOfRange (length (ts_frames st)) (length (ts_frames st)))"
    using pos assms(2,3) len by (intro fillFrames_overrun) simp_all
  then have "tableStep st = Inl (IndexOutOfRange 256 256)"
    using len by (auto simp: tableStep_def split: prod.splits)
  with assms(2) show ?thesis
    by (subst tableLoop.simps) simp
qed

text \<open>
  C10. The fill loop of a record compares only \<open>j\<close> with the run length. Within a
  256-slot table, a run that fits the slots left (the slot \<open>0x4E\<close> not counted) is filled
  and ends at \<open>runEnd\<close>; a run that does not fit goes on to index 256 and fails there with
  Go's index-out-of-range panic, which ends the table loop and is no error value. The
  default run length \<open>mul - size\<close> wraps when the base size exceeds the multiplier: it is
  then above \<open>2^63\<close> and the record overruns the table.
\<close>

theorem fill_loop_has_no_bound_check:
  "(length frames = 256 \<and> i \<le> 256 \<and> runEnd i (unat (tr_count rc)) \<le> 256 \<longrightarrow>
      (\<exists>frames'. fillFrames rc 0 i frames = Inr (frames', runEnd i (unat (tr_count rc))))) \<and>
   (length frames = 256 \<and> i \<le> 256 \<and> 256 < runEnd i (unat (tr_count rc)) \<longrightarrow>
      fillFrames rc 0 i frames = Inl (IndexOutOfRange 256 256)) \<and>
   (tableInv st \<and> ts_i st < 256 \<and>
    256 < runEnd (ts_i st) (unat (tr_count (fst (readTableRecord st)))) \<longrightarrow>
      tableLoop st = Some (Inl (IndexOutOfRange 256 256))) \<and>
   (tableInv st \<and> ts_i st < 256 \<and>
    tr_count (fst (readTableRecord st))
      = tr_mul (fst (readTableRecord st)) - tr_size (fst (readTableRecord st)) \<and>
    tr_mul (fst (readTableRecord st)) < tr_size (fst (readTableRecord st)) \<longrightarrow>
      2 ^ 63 < unat (tr_count (fst (readTableRecord st))) \<and>
      tableLoop st = Some (Inl (IndexOutOfRange 256 256)))"
proof (intro conjI impI)
  assume a: "length frames = 256 \<and> i \<le> 256 \<and> runEnd i (unat (tr_count rc)) \<le> 256"
  then have "\<exists>frames'. fillFrames rc 0 i frames
                = Inr (frames', runEnd i (unat (tr_count rc) - unat (0 :: uint64)))"
    by (intro fillFrames_fits) simp_all
  then show "\<exists>frames'. fillFrames rc 0 i frames = Inr (frames', runEnd i (unat (tr_count rc)))"
    by simp
next
  assume a: "length frames = 256 \<and> i \<le> 256 \<and> 256 < runEnd i (unat (tr_count rc))"
  have pos: "0 < tr_count rc"
  proof (rule ccontr)
    assume "\<not> 0 < tr_count rc"
    then have "tr_count rc = 0" by (simp add: word_gt_0)
    with a show False by auto
  qed
  have "fillFrames rc 0 i frames = Inl (IndexOutOfRange (length frames) (length frames))"
    using pos a by (intro fillFrames_overrun) simp_all
  with a show "fillFrames rc 0 i frames = Inl (IndexOutOfRange 256 256)" by simp
next
  assume "tableInv st \<and> ts_i st < 256 \<and>
    256 < runEnd (ts_i st) (unat (tr_count (fst (readTableRecord st))))"
  then show "tableLoop st = Some (Inl (IndexOutOfRange 256 256))"
    by (intro tableLoop_overrun) simp_all
next
  assume a: "tableInv st \<and> ts_i st < 256 \<and>
    tr_count (fst (readTableRecord st))
      = tr_mul (fst (readTableRecord st)) - tr_size (fst (readTableRecord st)) \<and>
    tr_mul (fst (readTableRecord st)) < tr_size (fst (readTableRecord st))"
  then have big: "2 ^ 63 < unat (tr_count (fst (readTableRecord st)))"
    using unat_sub_wraps [OF _ readTableRecord_size_lt, of "tr_mul (fst (readTableRecord st))" st]
    by simp
  show "2 ^ 63 < unat (tr_count (fst (readTableRecord st)))" by (rule big)
  have "256 < ts_i st + unat (tr_count (fst (readTableRecord st)))"
    using big by simp
  also have "\<dots> \<le> runEnd (ts_i st) (unat (tr_count (fst (readTableRecord st))))"
    by (rule runEnd_ge)
  finally show "tableLoop st = Some (Inl (IndexOutOfRange 256 256))"
    using a by (intro tableLoop_overrun) simp_all
qed

subsection \<open>The records read and the table returned\<close>

text \<open>The state of the table loop after \<open>n\<close> records, when it gets that far.\<close>

fun tableAfter :: "nat \<Rightarrow> tableState \<Rightarrow> tableState option" where
  "tableAfter 0 st = Some st"
| "tableAfter (Suc n) st =
     (if ts_i st < 256 then
        (case tableStep st of Inl pn \<Rightarrow> None | Inr st' \<Rightarrow> tableAfter n st')
      else None)"

text \<open>The state in which \<open>readMainHeader\<close> enters the table loop.\<close>

definition tableInit :: "rawPacket \<Rightarrow> tableState" where
  "tableInit p =
     (case p_readUvarint p of (version, p) \<Rightarrow>
      case (if version > 3 then p_readUvarint p else (0, p)) of (minor, p) \<Rightarrow>
      case p_readUvarint p of (streamCount, p) \<Rightarrow>
      case p_readUvarint p of (maxDistance, p) \<Rightarrow>
      case p_readUvarint p of (timeBaseCount, p) \<Rightarrow>
      case readTimeBases (unat timeBaseCount) p of (timeBases, p) \<Rightarrow>
        \<lparr>ts_p = p, ts_pts = 0, ts_mul = 1, ts_stream = 0,
         ts_match = 1 - push_bit 62 1, ts_headIdx = 0, ts_i = 0,
         ts_frames = replicate 256 zeroFrameInfo\<rparr>)"

lemma tableStep_run:
  assumes s: "tableStep st = Inr st1" and inv: "tableInv st"
  shows "ts_i st1 = runEnd (ts_i st) (unat (tr_count (fst (readTableRecord st)))) \<and>
         ts_i st1 \<le> 256 \<and> length (ts_frames st1) = 256 \<and>
         (\<forall>k. k < ts_i st \<or> ts_i st1 \<le> k \<longrightarrow> ts_frames st1 ! k = ts_frames st ! k) \<and>
         (\<forall>k. ts_i st \<le> k \<and> k < ts_i st1 \<and> k \<noteq> 0x4E \<longrightarrow>
              ts_frames st1 ! k
                = runSlot (fst (readTableRecord st)) (of_nat (runOffset (ts_i st) k))
                    (ts_frames st ! k)) \<and>
         (ts_i st \<le> 0x4E \<and> 0x4E < ts_i st1 \<longrightarrow>
              ts_frames st1 ! 0x4E = (ts_frames st ! 0x4E)\<lparr>fi_flags := flagInvalid\<rparr>)"
proof -
  let ?rc = "fst (readTableRecord st)"
  have ff: "fillFrames ?rc 0 (ts_i st) (ts_frames st) = Inr (ts_frames st1, ts_i st1)"
    using s by (simp add: tableStep_Inr)
  have len: "length (ts_frames st) = 256" and i: "ts_i st \<le> 256"
    using inv by (simp_all add: tableInv_def)
  have a: "ts_i st1 = runEnd (ts_i st) (unat (tr_count ?rc))" "ts_i st1 \<le> 256"
    using fillFrames_result [OF ff] len i by simp_all
  have b: "length (ts_frames st1) = 256"
    using fillFrames_length [OF ff] len by simp
  note c = fillFrames_contents [OF ff]
  have c1: "\<forall>k. k < ts_i st \<or> ts_i st1 \<le> k \<longrightarrow> ts_frames st1 ! k = ts_frames st ! k"
    using c by blast
  have c2: "\<forall>k. ts_i st \<le> k \<and> k < ts_i st1 \<and> k \<noteq> 0x4E \<longrightarrow>
              ts_frames st1 ! k = runSlot ?rc (of_nat (runOffset (ts_i st) k)) (ts_frames st ! k)"
    using c by simp
  have c3: "ts_i st \<le> 0x4E \<and> 0x4E < ts_i st1 \<longrightarrow>
              ts_frames st1 ! 0x4E = (ts_frames st ! 0x4E)\<lparr>fi_flags := flagInvalid\<rparr>"
    using c by blast
  from a b c1 c2 c3 show ?thesis by blast
qed

lemma tableStep_fits:
  assumes inv: "tableInv st"
    and fit: "runEnd (ts_i st) (unat (tr_count (fst (readTableRecord st)))) \<le> 256"
  shows "\<exists>F. tableStep st =
           Inr \<lparr>ts_p = snd (readTableRecord st),
                ts_pts = tr_pts (fst (readTableRecord st)),
                ts_mul = tr_mul (fst (readTableRecord st)),
                ts_stream = tr_stream (fst (readTableRecord st)),
                ts_match = tr_match (fst (readTableRecord st)),
                ts_headIdx = tr_headIdx (fst (readTableRecord st)),
                ts_i = runEnd (ts_i st) (unat (tr_count (fst (readTableRecord st)))),
                ts_frames = F\<rparr>"
proof -
  let ?rc = "fst (readTableRecord st)"
  have len: "length (ts_frames st) = 256"
    using inv by (simp add: tableInv_def)
  have "\<exists>F. fillFrames ?rc 0 (ts_i st) (ts_frames st)
               = Inr (F, runEnd (ts_i st) (unat (tr_count ?rc) - unat (0 :: uint64)))"
    using fit len by (intro fillFrames_fits) simp_all
  then obtain F where "fillFrames ?rc 0 (ts_i st) (ts_frames st)
               = Inr (F, runEnd (ts_i st) (unat (tr_count ?rc)))"
    by auto
  then show ?thesis
    by (simp add: tableStep_def case_prod_beta)
qed

lemma tableAfter_loop:
  "tableAfter n st = Some st1 \<Longrightarrow> tableLoop st = tableLoop st1"
proof (induction n arbitrary: st)
  case 0
  then show ?case by simp
next
  case (Suc n)
  from Suc.prems obtain s where i: "ts_i st < 256" and s: "tableStep st = Inr s"
    and a: "tableAfter n s = Some st1"
    by (auto split: if_splits sum.splits)
  from i s have "tableLoop st = tableLoop s"
    by (subst tableLoop.simps) simp
  with Suc.IH [OF a] show ?case by simp
qed

lemma tableAfter_Suc:
  "tableAfter n st = Some st1 \<Longrightarrow> ts_i st1 < 256 \<Longrightarrow> tableStep st1 = Inr st2 \<Longrightarrow>
   tableAfter (Suc n) st = Some st2"
proof (induction n arbitrary: st)
  case 0
  then show ?case by simp
next
  case (Suc n)
  from Suc.prems(1) obtain s where i: "ts_i st < 256" and s: "tableStep st = Inr s"
    and a: "tableAfter n s = Some st1"
    by (auto split: if_splits sum.splits)
  from Suc.IH [OF a Suc.prems(2,3)] i s show ?case by simp
qed

lemma tableAfter_inv:
  "tableAfter n st = Some st1 \<Longrightarrow> tableInv st \<Longrightarrow>
   tableInv st1 \<and> ts_i st \<le> ts_i st1 \<and>
   (\<forall>k. k < ts_i st \<or> ts_i st1 \<le> k \<longrightarrow> ts_frames st1 ! k = ts_frames st ! k)"
proof (induction n arbitrary: st)
  case 0
  then show ?case by simp
next
  case (Suc n)
  from Suc.prems(1) obtain s where i: "ts_i st < 256" and s: "tableStep st = Inr s"
    and a: "tableAfter n s = Some st1"
    by (auto split: if_splits sum.splits)
  note x = tableStep_inv [OF s Suc.prems(2)]
  note r = tableStep_run [OF s Suc.prems(2)]
  from x have inv: "tableInv s" by simp
  note y = Suc.IH [OF a inv]
  have le: "ts_i st \<le> ts_i s" using x by simp
  have "ts_frames st1 ! k = ts_frames st ! k" if "k < ts_i st \<or> ts_i st1 \<le> k" for k
  proof -
    from that le y have "k < ts_i s \<or> ts_i st1 \<le> k" by auto
    with y have "ts_frames st1 ! k = ts_frames s ! k" by blast
    moreover from that y have "k < ts_i st \<or> ts_i s \<le> k" by auto
    with r have "ts_frames s ! k = ts_frames st ! k" by blast
    ultimately show ?thesis by simp
  qed
  with y le show ?case by auto
qed

text \<open>
  The table loop returns a table exactly when, after some number of records, the index is
  no longer below 256; it panics exactly when the fill loop of some record does.
\<close>

lemma tableLoop_returns:
  "tableLoop st = Some (Inr st') \<longleftrightarrow> (\<exists>n. tableAfter n st = Some st' \<and> \<not> ts_i st' < 256)"
proof
  assume "\<exists>n. tableAfter n st = Some st' \<and> \<not> ts_i st' < 256"
  then obtain n where a: "tableAfter n st = Some st'" and i: "\<not> ts_i st' < 256" by blast
  from i have "tableLoop st' = Some (Inr st')"
    by (subst tableLoop.simps) simp
  with tableAfter_loop [OF a] show "tableLoop st = Some (Inr st')" by simp
next
  assume tl: "tableLoop st = Some (Inr st')"
  let ?Q = "\<lambda>st (y :: panic + tableState). \<forall>st'. y = Inr st' \<longrightarrow>
              (\<exists>n. tableAfter n st = Some st' \<and> \<not> ts_i st' < 256)"
  have "?Q st (Inr st')"
  proof (rule tableLoop.raw_induct [where P = ?Q, OF _ tl])
    fix loop st y
    assume IH: "\<And>x y. loop x = Some y \<Longrightarrow> ?Q x y"
      and eq: "(if ts_i st < 256
                then case tableStep st of Inl pn \<Rightarrow> Some (Inl pn) | Inr st' \<Rightarrow> loop st'
                else Some (Inr st)) = Some y"
    show "?Q st y"
    proof (intro allI impI)
      fix st' assume y: "y = Inr st'"
      show "\<exists>n. tableAfter n st = Some st' \<and> \<not> ts_i st' < 256"
      proof (cases "ts_i st < 256")
        case False
        with eq y have "tableAfter 0 st = Some st' \<and> \<not> ts_i st' < 256" by simp
        then show ?thesis by (rule exI)
      next
        case True
        with eq y obtain s where s: "tableStep st = Inr s" and l: "loop s = Some (Inr st')"
          by (auto split: sum.splits)
        from IH [OF l] obtain n where "tableAfter n s = Some st'" "\<not> ts_i st' < 256"
          by blast
        with True s have "tableAfter (Suc n) st = Some st' \<and> \<not> ts_i st' < 256" by simp
        then show ?thesis by (rule exI)
      qed
    qed
  qed
  then show "\<exists>n. tableAfter n st = Some st' \<and> \<not> ts_i st' < 256" by simp
qed

lemma tableLoop_stuck:
  assumes "tableStep st = Inr st" and "ts_i st < 256"
  shows "tableLoop st = None"
proof (rule ccontr)
  assume "tableLoop st \<noteq> None"
  then obtain y where tl: "tableLoop st = Some y" by blast
  let ?Q = "\<lambda>x (y :: panic + tableState). x \<noteq> st"
  have "?Q st y"
  proof (rule tableLoop.raw_induct [where P = ?Q, OF _ tl])
    fix loop x y
    assume IH: "\<And>x y. loop x = Some y \<Longrightarrow> ?Q x y"
      and eq: "(if ts_i x < 256
                then case tableStep x of Inl pn \<Rightarrow> Some (Inl pn) | Inr st' \<Rightarrow> loop st'
                else Some (Inr x)) = Some y"
    show "x \<noteq> st"
    proof
      assume "x = st"
      with eq assms have "loop st = Some y" by simp
      from IH [OF this] show False by simp
    qed
  qed
  then show False by simp
qed

lemma tableAfter_marker:
  "tableAfter n st = Some st1 \<Longrightarrow> tableInv st \<Longrightarrow> ts_i st \<le> 0x4E \<Longrightarrow> 0x4E < ts_i st1 \<Longrightarrow>
   ts_frames st1 ! 0x4E = (ts_frames st ! 0x4E)\<lparr>fi_flags := flagInvalid\<rparr>"
proof (induction n arbitrary: st)
  case 0
  then show ?case by simp
next
  case (Suc n)
  from Suc.prems(1) obtain s where i: "ts_i st < 256" and s: "tableStep st = Inr s"
    and a: "tableAfter n s = Some st1"
    by (auto split: if_splits sum.splits)
  note r = tableStep_run [OF s Suc.prems(2)]
  from tableStep_inv [OF s Suc.prems(2)] have inv: "tableInv s" by simp
  show ?case
  proof (cases "ts_i s \<le> 0x4E")
    case True
    from r True have "ts_frames s ! 0x4E = ts_frames st ! 0x4E" by blast
    with Suc.IH [OF a inv True Suc.prems(4)] show ?thesis by simp
  next
    case False
    with r Suc.prems(3)
    have "ts_frames s ! 0x4E = (ts_frames st ! 0x4E)\<lparr>fi_flags := flagInvalid\<rparr>" by simp
    moreover from tableAfter_inv [OF a inv] False
    have "ts_frames st1 ! 0x4E = ts_frames s ! 0x4E" by simp
    ultimately show ?thesis by simp
  qed
qed

text \<open>The run of every record read is in the table the loop returns.\<close>

lemma tableLoop_run_kept:
  assumes tl: "tableLoop st = Some (Inr st')" and inv: "tableInv st"
    and a: "tableAfter n st = Some st1" and i: "ts_i st1 < 256"
  shows "runEnd (ts_i st1) (unat (tr_count (fst (readTableRecord st1)))) \<le> 256 \<and>
     (\<forall>k. ts_i st1 \<le> k \<and> k < runEnd (ts_i st1) (unat (tr_count (fst (readTableRecord st1)))) \<and>
          k \<noteq> 0x4E \<longrightarrow>
          ts_frames st' ! k
            = runSlot (fst (readTableRecord st1)) (of_nat (runOffset (ts_i st1) k))
                (ts_frames st ! k))"
proof -
  let ?rc = "fst (readTableRecord st1)"
  let ?e = "runEnd (ts_i st1) (unat (tr_count ?rc))"
  note x = tableAfter_inv [OF a inv]
  then have inv1: "tableInv st1" by simp
  from tableAfter_loop [OF a] tl have tl1: "tableLoop st1 = Some (Inr st')" by simp
  from tl1 i obtain st2 where s: "tableStep st1 = Inr st2"
    and tl2: "tableLoop st2 = Some (Inr st')"
    by (subst (asm) tableLoop.simps) (auto split: sum.splits)
  note r = tableStep_run [OF s inv1]
  from tableStep_inv [OF s inv1] have inv2: "tableInv st2" by simp
  note z = tableLoop_inv [OF tl2 inv2]
  have e: "ts_i st2 = ?e" using r by simp
  have "ts_frames st' ! k = runSlot ?rc (of_nat (runOffset (ts_i st1) k)) (ts_frames st ! k)"
    if "ts_i st1 \<le> k \<and> k < ?e \<and> k \<noteq> 0x4E" for k
  proof -
    from that e have k: "ts_i st1 \<le> k" "k < ts_i st2" "k \<noteq> 0x4E" by simp_all
    from z k(2) have "ts_frames st' ! k = ts_frames st2 ! k" by simp
    also from r k have "\<dots> = runSlot ?rc (of_nat (runOffset (ts_i st1) k)) (ts_frames st1 ! k)"
      by simp
    also from x k(1) have "ts_frames st1 ! k = ts_frames st ! k" by simp
    finally show ?thesis .
  qed
  moreover from r e have "?e \<le> 256" by simp
  ultimately show ?thesis by blast
qed

text \<open>Records with non-empty runs that fit bring the loop to the index 256.\<close>

lemma tableLoop_total:
  assumes inv: "tableInv st"
    and ok: "\<And>n st1. tableAfter n st = Some st1 \<Longrightarrow> ts_i st1 < 256 \<Longrightarrow>
               0 < tr_count (fst (readTableRecord st1)) \<and>
               runEnd (ts_i st1) (unat (tr_count (fst (readTableRecord st1)))) \<le> 256"
  shows "\<exists>n st'. n \<le> 256 - ts_i st \<and> tableAfter n st = Some st' \<and> ts_i st' = 256"
  using inv ok
proof (induction "256 - ts_i st" arbitrary: st rule: less_induct)
  case less
  show ?case
  proof (cases "ts_i st < 256")
    case False
    with less.prems(1) have "ts_i st = 256" by (simp add: tableInv_def)
    then have "0 \<le> 256 - ts_i st \<and> tableAfter 0 st = Some st \<and> ts_i st = 256" by simp
    then show ?thesis by blast
  next
    case True
    let ?rc = "fst (readTableRecord st)"
    have "tableAfter 0 st = Some st" by simp
    from less.prems(2) [OF this True]
    have pos: "0 < tr_count ?rc" and fit: "runEnd (ts_i st) (unat (tr_count ?rc)) \<le> 256"
      by simp_all
    from tableStep_fits [OF less.prems(1) fit] obtain s where s: "tableStep st = Inr s"
      and ie: "ts_i s = runEnd (ts_i st) (unat (tr_count ?rc))"
      by auto
    from pos have "0 < unat (tr_count ?rc)" by (simp add: word_less_nat_alt)
    with runEnd_ge [of "ts_i st" "unat (tr_count ?rc)"] ie have gt: "ts_i st < ts_i s" by simp
    from ie fit have le: "ts_i s \<le> 256" by simp
    from tableStep_inv [OF s less.prems(1)] have invs: "tableInv s" by simp
    have oks: "0 < tr_count (fst (readTableRecord st1)) \<and>
               runEnd (ts_i st1) (unat (tr_count (fst (readTableRecord st1)))) \<le> 256"
      if "tableAfter m s = Some st1" "ts_i st1 < 256" for m st1
    proof -
      from that(1) True s have "tableAfter (Suc m) st = Some st1" by simp
      from less.prems(2) [OF this that(2)] show ?thesis .
    qed
    have "\<exists>n st'. n \<le> 256 - ts_i s \<and> tableAfter n s = Some st' \<and> ts_i st' = 256"
    proof (rule less.hyps)
      show "256 - ts_i s < 256 - ts_i st" using gt True by simp
      show "tableInv s" by (rule invs)
      show "0 < tr_count (fst (readTableRecord st1)) \<and>
               runEnd (ts_i st1) (unat (tr_count (fst (readTableRecord st1)))) \<le> 256"
        if "tableAfter n s = Some st1" "ts_i st1 < 256" for n st1
        using that by (rule oks)
    qed
    then obtain m st' where
      m: "m \<le> 256 - ts_i s" "tableAfter m s = Some st'" "ts_i st' = 256"
      by blast
    from m(1) gt le have "Suc m \<le> 256 - ts_i st" by simp
    moreover from m(2) True s have "tableAfter (Suc m) st = Some st'" by simp
    ultimately show ?thesis using m(3) by blast
  qed
qed

subsection \<open>The table of a decoded main header\<close>

lemma tableInit_fields [simp]:
  "ts_i (tableInit p) = 0" "ts_frames (tableInit p) = replicate 256 zeroFrameInfo"
  by (simp_all add: tableInit_def case_prod_beta)

lemma tableInit_inv: "tableInv (tableInit p)"
  by (simp add: tableInv_def)

lemma readMainHeader_tableInit:
  "readMainHeader p = Some (Inr ((Some h, e), p')) \<Longrightarrow>
   \<exists>st'. tableLoop (tableInit p) = Some (Inr st') \<and> Frames h = ts_frames st'"
  by (auto simp: readMainHeader_def tableInit_def case_prod_beta
           split: if_split_asm option.splits sum.splits)

lemma readMainHeader_None:
  "readMainHeader p = None \<Longrightarrow> tableLoop (tableInit p) = None"
  by (auto simp: readMainHeader_def tableInit_def case_prod_beta
           split: if_split_asm option.splits sum.splits)

text \<open>Every slot the loop has passed lies in the run of one of the records read.\<close>

lemma tableAfter_cover:
  "tableAfter n st = Some st' \<Longrightarrow> tableInv st \<Longrightarrow> ts_i st \<le> k \<Longrightarrow> k < ts_i st' \<Longrightarrow>
   \<exists>m st1. tableAfter m st = Some st1 \<and> ts_i st1 < 256 \<and> ts_i st1 \<le> k \<and>
            k < runEnd (ts_i st1) (unat (tr_count (fst (readTableRecord st1))))"
proof (induction n arbitrary: st)
  case 0
  then show ?case by simp
next
  case (Suc n)
  from Suc.prems(1) obtain s where i: "ts_i st < 256" and s: "tableStep st = Inr s"
    and a: "tableAfter n s = Some st'"
    by (auto split: if_splits sum.splits)
  note r = tableStep_run [OF s Suc.prems(2)]
  from tableStep_inv [OF s Suc.prems(2)] have inv: "tableInv s" by simp
  show ?case
  proof (cases "k < ts_i s")
    case True
    with r i Suc.prems(3)
    have "tableAfter 0 st = Some st \<and> ts_i st < 256 \<and> ts_i st \<le> k \<and>
            k < runEnd (ts_i st) (unat (tr_count (fst (readTableRecord st))))"
      by simp
    then show ?thesis by blast
  next
    case False
    then have "ts_i s \<le> k" by simp
    from Suc.IH [OF a inv this Suc.prems(4)] obtain m st1 where
      m: "tableAfter m s = Some st1" and x: "ts_i st1 < 256 \<and> ts_i st1 \<le> k \<and>
            k < runEnd (ts_i st1) (unat (tr_count (fst (readTableRecord st1))))"
      by blast
    from m i s have "tableAfter (Suc m) st = Some st1" by simp
    with x show ?thesis by blast
  qed
qed

lemma tableLoop_table:
  assumes tl: "tableLoop st = Some (Inr st')" and inv: "tableInv st"
  shows "ts_i st' = 256 \<and> length (ts_frames st') = 256 \<and>
      fi_flags (ts_frames st' ! 0x4E) = flagInvalid \<and>
      (ts_i st \<le> 0x4E \<longrightarrow>
         ts_frames st' ! 0x4E = (ts_frames st ! 0x4E)\<lparr>fi_flags := flagInvalid\<rparr>) \<and>
      (\<forall>k. k < ts_i st \<longrightarrow> ts_frames st' ! k = ts_frames st ! k) \<and>
      (\<forall>n st1 k. tableAfter n st = Some st1 \<and> ts_i st1 < 256 \<and> ts_i st1 \<le> k \<and>
           k < runEnd (ts_i st1) (unat (tr_count (fst (readTableRecord st1)))) \<and> k \<noteq> 0x4E \<longrightarrow>
           ts_frames st' ! k
             = runSlot (fst (readTableRecord st1)) (of_nat (runOffset (ts_i st1) k))
                 (ts_frames st ! k)) \<and>
      (\<forall>k. ts_i st \<le> k \<and> k < 256 \<longrightarrow>
           (\<exists>n st1. tableAfter n st = Some st1 \<and> ts_i st1 < 256 \<and> ts_i st1 \<le> k \<and>
              k < runEnd (ts_i st1) (unat (tr_count (fst (readTableRecord st1))))))"
proof -
  note r = tableLoop_inv [OF tl inv]
  from tl obtain N where N: "tableAfter N st = Some st'"
    by (auto simp: tableLoop_returns)
  have a: "ts_i st' = 256" using r by simp
  have b: "length (ts_frames st') = 256" using r by (simp add: tableInv_def)
  have c: "fi_flags (ts_frames st' ! 0x4E) = flagInvalid" using r by (simp add: tableInv_def)
  have d: "ts_i st \<le> 0x4E \<longrightarrow>
         ts_frames st' ! 0x4E = (ts_frames st ! 0x4E)\<lparr>fi_flags := flagInvalid\<rparr>"
    using tableAfter_marker [OF N inv] a by simp
  have e: "\<forall>k. k < ts_i st \<longrightarrow> ts_frames st' ! k = ts_frames st ! k" using r by simp
  have f: "\<forall>n st1 k. tableAfter n st = Some st1 \<and> ts_i st1 < 256 \<and> ts_i st1 \<le> k \<and>
           k < runEnd (ts_i st1) (unat (tr_count (fst (readTableRecord st1)))) \<and> k \<noteq> 0x4E \<longrightarrow>
           ts_frames st' ! k
             = runSlot (fst (readTableRecord st1)) (of_nat (runOffset (ts_i st1) k))
                 (ts_frames st ! k)"
    using tableLoop_run_kept [OF tl inv] by blast
  have g: "\<forall>k. ts_i st \<le> k \<and> k < 256 \<longrightarrow>
           (\<exists>n st1. tableAfter n st = Some st1 \<and> ts_i st1 < 256 \<and> ts_i st1 \<le> k \<and>
              k < runEnd (ts_i st1) (unat (tr_count (fst (readTableRecord st1)))))"
    using tableAfter_cover [OF N inv] a by simp
  from a b c d e f g show ?thesis by blast
qed

lemma readMainHeader_frames:
  assumes rd: "readMainHeader p = Some (Inr ((Some h, e), p'))"
  shows "(\<exists>st'. tableLoop (tableInit p) = Some (Inr st') \<and> Frames h = ts_frames st') \<and>
      length (Frames h) = 256 \<and>
      Frames h ! 0x4E = zeroFrameInfo\<lparr>fi_flags := flagInvalid\<rparr> \<and>
      (\<forall>n st1 k. tableAfter n (tableInit p) = Some st1 \<and> ts_i st1 < 256 \<and> ts_i st1 \<le> k \<and>
           k < runEnd (ts_i st1) (unat (tr_count (fst (readTableRecord st1)))) \<and> k \<noteq> 0x4E \<longrightarrow>
           Frames h ! k
             = runSlot (fst (readTableRecord st1)) (of_nat (runOffset (ts_i st1) k))
                 zeroFrameInfo) \<and>
      (\<forall>k. k < 256 \<longrightarrow>
           (\<exists>n st1. tableAfter n (tableInit p) = Some st1 \<and> ts_i st1 < 256 \<and> ts_i st1 \<le> k \<and>
              k < runEnd (ts_i st1) (unat (tr_count (fst (readTableRecord st1))))))"
proof -
  from readMainHeader_tableInit [OF rd] obtain st' where
    tl: "tableLoop (tableInit p) = Some (Inr st')" and F: "Frames h = ts_frames st'"
    by blast
  note t = tableLoop_table [OF tl tableInit_inv]
  have a: "\<exists>st'. tableLoop (tableInit p) = Some (Inr st') \<and> Frames h = ts_frames st'"
    using tl F by blast
  have b: "length (Frames h) = 256" using t F by simp
  have c: "Frames h ! 0x4E = zeroFrameInfo\<lparr>fi_flags := flagInvalid\<rparr>"
    using t F by simp
  have d: "Frames h ! k
             = runSlot (fst (readTableRecord st1)) (of_nat (runOffset (ts_i st1) k))
                 zeroFrameInfo"
    if x: "tableAfter n (tableInit p) = Some st1 \<and> ts_i st1 < 256 \<and> ts_i st1 \<le> k \<and>
           k < runEnd (ts_i st1) (unat (tr_count (fst (readTableRecord st1)))) \<and> k \<noteq> 0x4E"
    for n st1 k
  proof -
    from tableLoop_run_kept [OF tl tableInit_inv, of n st1] x
    have le: "runEnd (ts_i st1) (unat (tr_count (fst (readTableRecord st1)))) \<le> 256"
      and eq: "ts_frames st' ! k
             = runSlot (fst (readTableRecord st1)) (of_nat (runOffset (ts_i st1) k))
                 (ts_frames (tableInit p) ! k)"
      by simp_all
    from x le have "k < 256" by simp
    with eq F show ?thesis by simp
  qed
  have g: "\<forall>k. k < 256 \<longrightarrow>
           (\<exists>n st1. tableAfter n (tableInit p) = Some st1 \<and> ts_i st1 < 256 \<and> ts_i st1 \<le> k \<and>
              k < runEnd (ts_i st1) (unat (tr_count (fst (readTableRecord st1)))))"
    using t by simp
  from a b c d g show ?thesis by blast
qed

lemma tableLoop_returns_total:
  assumes inv: "tableInv st"
    and ok: "\<forall>n st1. tableAfter n st = Some st1 \<and> ts_i st1 < 256 \<longrightarrow>
               0 < tr_count (fst (readTableRecord st1)) \<and>
               runEnd (ts_i st1) (unat (tr_count (fst (readTableRecord st1)))) \<le> 256"
  shows "\<exists>st'. tableLoop st = Some (Inr st')"
proof -
  have "\<exists>n st'. n \<le> 256 - ts_i st \<and> tableAfter n st = Some st' \<and> ts_i st' = 256"
    by (rule tableLoop_total [OF inv]) (use ok in blast)
  then obtain n st' where "tableAfter n st = Some st'" "ts_i st' = 256" by blast
  then have "tableLoop st = Some (Inr st')"
    by (auto simp: tableLoop_returns)
  then show ?thesis ..
qed

text \<open>
  C1 (amended). The fill loop of one record, started at the slot \<open>i\<close> of a 256-slot
  table, ends at \<open>runEnd\<close>, leaves every slot outside the run as it was, gives every slot
  of the run other than \<open>0x4E\<close> the record's flags, stream id, multiplier, \<open>ptsDelta\<close>,
  \<open>reservedCount\<close>, \<open>matchTimeDelta\<close> and \<open>headerIdx\<close> with the base size plus the slot's
  offset, and stores the invalid flag in the slot \<open>0x4E\<close>, which uses up no unit of the run
  length. A record whose run fits takes the table loop on from the state after its run. The
  loop returns a table exactly when the runs of the records read bring the index to 256,
  which they do whenever every record read declares a non-empty run that fits; the table
  returned, which is the table of the main header decoded, has 256 slots, every slot lies
  in the run of one of the records read and, the slot \<open>0x4E\<close> apart, holds what that
  record's run gave it, and the slot \<open>0x4E\<close> holds the invalid flag and nothing else. A
  table loop whose record leaves the state as it was never returns, and the main-header
  decoder fails to return only when its table loop does.
\<close>

theorem frame_table_construction:
  "(fillFrames rc 0 i frames = Inr (frames', i') \<and> length frames = 256 \<and> i \<le> 256 \<longrightarrow>
      length frames' = 256 \<and> i' = runEnd i (unat (tr_count rc)) \<and> i' \<le> 256 \<and>
      (\<forall>k. k < i \<or> i' \<le> k \<longrightarrow> frames' ! k = frames ! k) \<and>
      (\<forall>k. i \<le> k \<and> k < i' \<and> k \<noteq> 0x4E \<longrightarrow>
           frames' ! k = runSlot rc (of_nat (runOffset i k)) (frames ! k)) \<and>
      (i \<le> 0x4E \<and> 0x4E < i' \<longrightarrow>
           frames' ! 0x4E = (frames ! 0x4E)\<lparr>fi_flags := flagInvalid\<rparr>)) \<and>
   (tableInv st \<and> ts_i st < 256 \<and>
    runEnd (ts_i st) (unat (tr_count (fst (readTableRecord st)))) \<le> 256 \<longrightarrow>
      (\<exists>st1. tableStep st = Inr st1 \<and> tableLoop st = tableLoop st1 \<and>
         ts_p st1 = snd (readTableRecord st) \<and>
         ts_i st1 = runEnd (ts_i st) (unat (tr_count (fst (readTableRecord st)))) \<and>
         length (ts_frames st1) = 256 \<and>
         (\<forall>k. k < ts_i st \<or> ts_i st1 \<le> k \<longrightarrow> ts_frames st1 ! k = ts_frames st ! k) \<and>
         (\<forall>k. ts_i st \<le> k \<and> k < ts_i st1 \<and> k \<noteq> 0x4E \<longrightarrow>
              ts_frames st1 ! k
                = runSlot (fst (readTableRecord st)) (of_nat (runOffset (ts_i st) k))
                    (ts_frames st ! k)) \<and>
         (ts_i st \<le> 0x4E \<and> 0x4E < ts_i st1 \<longrightarrow>
              ts_frames st1 ! 0x4E = (ts_frames st ! 0x4E)\<lparr>fi_flags := flagInvalid\<rparr>))) \<and>
   (tableLoop st = Some (Inr st') \<longleftrightarrow>
      (\<exists>n. tableAfter n st = Some st' \<and> \<not> ts_i st' < 256)) \<and>
   (tableInv st \<and>
    (\<forall>n st1. tableAfter n st = Some st1 \<and> ts_i st1 < 256 \<longrightarrow>
       0 < tr_count (fst (readTableRecord st1)) \<and>
       runEnd (ts_i st1) (unat (tr_count (fst (readTableRecord st1)))) \<le> 256) \<longrightarrow>
      (\<exists>st'. tableLoop st = Some (Inr st'))) \<and>
   (tableLoop st = Some (Inr st') \<and> tableInv st \<longrightarrow>
      ts_i st' = 256 \<and> length (ts_frames st') = 256 \<and>
      fi_flags (ts_frames st' ! 0x4E) = flagInvalid \<and>
      (ts_i st \<le> 0x4E \<longrightarrow>
         ts_frames st' ! 0x4E = (ts_frames st ! 0x4E)\<lparr>fi_flags := flagInvalid\<rparr>) \<and>
      (\<forall>k. k < ts_i st \<longrightarrow> ts_frames st' ! k = ts_frames st ! k) \<and>
      (\<forall>n st1 k. tableAfter n st = Some st1 \<and> ts_i st1 < 256 \<and> ts_i st1 \<le> k \<and>
           k < runEnd (ts_i st1) (unat (tr_count (fst (readTableRecord st1)))) \<and> k \<noteq> 0x4E \<longrightarrow>
           ts_frames st' ! k
             = runSlot (fst (readTableRecord st1)) (of_nat (runOffset (ts_i st1) k))
                 (ts_frames st ! k)) \<and>
      (\<forall>k. ts_i st \<le> k \<and> k < 256 \<longrightarrow>
           (\<exists>n st1. tableAfter n st = Some st1 \<and> ts_i st1 < 256 \<and> ts_i st1 \<le> k \<and>
              k < runEnd (ts_i st1) (unat (tr_count (fst (readTableRecord st1))))))) \<and>
   (readMainHeader p = Some (Inr ((Some h, e), p')) \<longrightarrow>
      (\<exists>st'. tableLoop (tableInit p) = Some (Inr st') \<and> Frames h = ts_frames st') \<and>
      length (Frames h) = 256 \<and>
      Frames h ! 0x4E = zeroFrameInfo\<lparr>fi_flags := flagInvalid\<rparr> \<and>
      (\<forall>n st1 k. tableAfter n (tableInit p) = Some st1 \<and> ts_i st1 < 256 \<and> ts_i st1 \<le> k \<and>
           k < runEnd (ts_i st1) (unat (tr_count (fst (readTableRecord st1)))) \<and> k \<noteq> 0x4E \<longrightarrow>
           Frames h ! k
             = runSlot (fst (readTableRecord st1)) (of_nat (runOffset (ts_i st1) k))
                 zeroFrameInfo) \<and>
      (\<forall>k. k < 256 \<longrightarrow>
           (\<exists>n st1. tableAfter n (tableInit p) = Some st1 \<and> ts_i st1 < 256 \<and> ts_i st1 \<le> k \<and>
              k < runEnd (ts_i st1) (unat (tr_count (fst (readTableRecord st1))))))) \<and>
   (tableStep st = Inr st \<and> ts_i st < 256 \<longrightarrow> tableLoop st = None) \<and>
   (readMainHeader p = None \<longrightarrow> tableLoop (tableInit p) = None)"
proof (intro conjI)
  show "fillFrames rc 0 i frames = Inr (frames', i') \<and> length frames = 256 \<and> i \<le> 256 \<longrightarrow>
      length frames' = 256 \<and> i' = runEnd i (unat (tr_count rc)) \<and> i' \<le> 256 \<and>
      (\<forall>k. k < i \<or> i' \<le> k \<longrightarrow> frames' ! k = frames ! k) \<and>
      (\<forall>k. i \<le> k \<and> k < i' \<and> k \<noteq> 0x4E \<longrightarrow>
           frames' ! k = runSlot rc (of_nat (runOffset i k)) (frames ! k)) \<and>
      (i \<le> 0x4E \<and> 0x4E < i' \<longrightarrow>
           frames' ! 0x4E = (frames ! 0x4E)\<lparr>fi_flags := flagInvalid\<rparr>)"
  proof (intro impI conjI)
    assume a: "fillFrames rc 0 i frames = Inr (frames', i') \<and> length frames = 256 \<and> i \<le> 256"
    then have ff: "fillFrames rc 0 i frames = Inr (frames', i')" by simp
    show "length frames' = 256" using fillFrames_length [OF ff] a by simp
    show "i' = runEnd i (unat (tr_count rc))" "i' \<le> 256"
      using fillFrames_result [OF ff] a by simp_all
    show "\<forall>k. k < i \<or> i' \<le> k \<longrightarrow> frames' ! k = frames ! k"
      using fillFrames_contents [OF ff] by blast
    show "\<forall>k. i \<le> k \<and> k < i' \<and> k \<noteq> 0x4E \<longrightarrow>
             frames' ! k = runSlot rc (of_nat (runOffset i k)) (frames ! k)"
      using fillFrames_contents [OF ff] by simp
    show "frames' ! 0x4E = (frames ! 0x4E)\<lparr>fi_flags := flagInvalid\<rparr>"
      if "i \<le> 0x4E \<and> 0x4E < i'"
      using fillFrames_contents [OF ff] that by blast
  qed
next
  show "tableInv st \<and> ts_i st < 256 \<and>
    runEnd (ts_i st) (unat (tr_count (fst (readTableRecord st)))) \<le> 256 \<longrightarrow>
      (\<exists>st1. tableStep st = Inr st1 \<and> tableLoop st = tableLoop st1 \<and>
         ts_p st1 = snd (readTableRecord st) \<and>
         ts_i st1 = runEnd (ts_i st) (unat (tr_count (fst (readTableRecord st)))) \<and>
         length (ts_frames st1) = 256 \<and>
         (\<forall>k. k < ts_i st \<or> ts_i st1 \<le> k \<longrightarrow> ts_frames st1 ! k = ts_frames st ! k) \<and>
         (\<forall>k. ts_i st \<le> k \<and> k < ts_i st1 \<and> k \<noteq> 0x4E \<longrightarrow>
              ts_frames st1 ! k
                = runSlot (fst (readTableRecord st)) (of_nat (runOffset (ts_i st) k))
                    (ts_frames st ! k)) \<and>
         (ts_i st \<le> 0x4E \<and> 0x4E < ts_i st1 \<longrightarrow>
              ts_frames st1 ! 0x4E = (ts_frames st ! 0x4E)\<lparr>fi_flags := flagInvalid\<rparr>))"
  proof
    assume a: "tableInv st \<and> ts_i st < 256 \<and>
      runEnd (ts_i st) (unat (tr_count (fst (readTableRecord st)))) \<le> 256"
    then have inv: "tableInv st" and i: "ts_i st < 256"
      and fit: "runEnd (ts_i st) (unat (tr_count (fst (readTableRecord st)))) \<le> 256"
      by simp_all
    from tableStep_fits [OF inv fit] obtain st1 where s: "tableStep st = Inr st1"
      by blast
    from i s have l: "tableLoop st = tableLoop st1"
      by (subst tableLoop.simps) simp
    from tableStep_Inr [OF s] have p: "ts_p st1 = snd (readTableRecord st)" by simp
    from s l p tableStep_run [OF s inv]
    show "\<exists>st1. tableStep st = Inr st1 \<and> tableLoop st = tableLoop st1 \<and>
         ts_p st1 = snd (readTableRecord st) \<and>
         ts_i st1 = runEnd (ts_i st) (unat (tr_count (fst (readTableRecord st)))) \<and>
         length (ts_frames st1) = 256 \<and>
         (\<forall>k. k < ts_i st \<or> ts_i st1 \<le> k \<longrightarrow> ts_frames st1 ! k = ts_frames st ! k) \<and>
         (\<forall>k. ts_i st \<le> k \<and> k < ts_i st1 \<and> k \<noteq> 0x4E \<longrightarrow>
              ts_frames st1 ! k
                = runSlot (fst (readTableRecord st)) (of_nat (runOffset (ts_i st) k))
                    (ts_frames st ! k)) \<and>
         (ts_i st \<le> 0x4E \<and> 0x4E < ts_i st1 \<longrightarrow>
              ts_frames st1 ! 0x4E = (ts_frames st ! 0x4E)\<lparr>fi_flags := flagInvalid\<rparr>)"
      by (intro exI [of _ st1]) blast
  qed
next
  show "tableLoop st = Some (Inr st') \<longleftrightarrow>
      (\<exists>n. tableAfter n st = Some st' \<and> \<not> ts_i st' < 256)"
    by (rule tableLoop_returns)
next
  show "tableInv st \<and>
    (\<forall>n st1. tableAfter n st = Some st1 \<and> ts_i st1 < 256 \<longrightarrow>
       0 < tr_count (fst (readTableRecord st1)) \<and>
       runEnd (ts_i st1) (unat (tr_count (fst (readTableRecord st1)))) \<le> 256) \<longrightarrow>
      (\<exists>st'. tableLoop st = Some (Inr st'))"
    using tableLoop_returns_total [of st] by blast
next
  show "tableLoop st = Some (Inr st') \<and> tableInv st \<longrightarrow>
      ts_i st' = 256 \<and> length (ts_frames st') = 256 \<and>
      fi_flags (ts_frames st' ! 0x4E) = flagInvalid \<and>
      (ts_i st \<le> 0x4E \<longrightarrow>
         ts_frames st' ! 0x4E = (ts_frames st ! 0x4E)\<lparr>fi_flags := flagInvalid\<rparr>) \<and>
      (\<forall>k. k < ts_i st \<longrightarrow> ts_frames st' ! k = ts_frames st ! k) \<and>
      (\<forall>n st1 k. tableAfter n st = Some st1 \<and> ts_i st1 < 256 \<and> ts_i st1 \<le> k \<and>
           k < runEnd (ts_i st1) (unat (tr_count (fst (readTableRecord st1)))) \<and> k \<noteq> 0x4E \<longrightarrow>
           ts_frames st' ! k
             = runSlot (fst (readTableRecord st1)) (of_nat (runOffset (ts_i st1) k))
                 (ts_frames st ! k)) \<and>
      (\<forall>k. ts_i st \<le> k \<and> k < 256 \<longrightarrow>
           (\<exists>n st1. tableAfter n st = Some st1 \<and> ts_i st1 < 256 \<and> ts_i st1 \<le> k \<and>
              k < runEnd (ts_i st1) (unat (tr_count (fst (readTableRecord st1))))))"
  proof
    assume "tableLoop st = Some (Inr st') \<and> tableInv st"
    then have tl: "tableLoop st = Some (Inr st')" and inv: "tableInv st" by simp_all
    show "ts_i st' = 256 \<and> length (ts_frames st') = 256 \<and>
      fi_flags (ts_frames st' ! 0x4E) = flagInvalid \<and>
      (ts_i st \<le> 0x4E \<longrightarrow>
         ts_frames st' ! 0x4E = (ts_frames st ! 0x4E)\<lparr>fi_flags := flagInvalid\<rparr>) \<and>
      (\<forall>k. k < ts_i st \<longrightarrow> ts_frames st' ! k = ts_frames st ! k) \<and>
      (\<forall>n st1 k. tableAfter n st = Some st1 \<and> ts_i st1 < 256 \<and> ts_i st1 \<le> k \<and>
           k < runEnd (ts_i st1) (unat (tr_count (fst (readTableRecord st1)))) \<and> k \<noteq> 0x4E \<longrightarrow>
           ts_frames st' ! k
             = runSlot (fst (readTableRecord st1)) (of_nat (runOffset (ts_i st1) k))
                 (ts_frames st ! k)) \<and>
      (\<forall>k. ts_i st \<le> k \<and> k < 256 \<longrightarrow>
           (\<exists>n st1. tableAfter n st = Some st1 \<and> ts_i st1 < 256 \<and> ts_i st1 \<le> k \<and>
              k < runEnd (ts_i st1) (unat (tr_count (fst (readTableRecord st1))))))"
      by (rule tableLoop_table [OF tl inv])
  qed
next
  show "readMainHeader p = Some (Inr ((Some h, e), p')) \<longrightarrow>
      (\<exists>st'. tableLoop (tableInit p) = Some (Inr st') \<and> Frames h = ts_frames st') \<and>
      length (Frames h) = 256 \<and>
      Frames h ! 0x4E = zeroFrameInfo\<lparr>fi_flags := flagInvalid\<rparr> \<and>
      (\<forall>n st1 k. tableAfter n (tableInit p) = Some st1 \<and> ts_i st1 < 256 \<and> ts_i st1 \<le> k \<and>
           k < runEnd (ts_i st1) (unat (tr_count (fst (readTableRecord st1)))) \<and> k \<noteq> 0x4E \<longrightarrow>
           Frames h ! k
             = runSlot (fst (readTableRecord st1)) (of_nat (runOffset (ts_i st1) k))
                 zeroFrameInfo) \<and>
      (\<forall>k. k < 256 \<longrightarrow>
           (\<exists>n st1. tableAfter n (tableInit p) = Some st1 \<and> ts_i st1 < 256 \<and> ts_i st1 \<le> k \<and>
              k < runEnd (ts_i st1) (unat (tr_count (fst (readTableRecord st1))))))"
    by (rule impI) (rule readMainHeader_frames)
next
  show "tableStep st = Inr st \<and> ts_i st < 256 \<longrightarrow> tableLoop st = None"
    using tableLoop_stuck [of st] by blast
next
  show "readMainHeader p = None \<longrightarrow> tableLoop (tableInit p) = None"
    using readMainHeader_None [of p] by blast
qed

subsection \<open>A table declared by one record\<close>

lemma runEnd_full [simp]: "runEnd 0 255 = 256"
  by (simp add: runEnd_def)

lemma tableLoop_full_run:
  assumes rec: "readTableRecord st = (rc, p)" and i0: "ts_i st = 0"
    and len: "length (ts_frames st) = 256" and cnt: "unat (tr_count rc) = 255"
  shows "\<exists>F. tableLoop st = Some (Inr \<lparr>ts_p = p, ts_pts = tr_pts rc, ts_mul = tr_mul rc,
                 ts_stream = tr_stream rc, ts_match = tr_match rc,
                 ts_headIdx = tr_headIdx rc, ts_i = 256, ts_frames = F\<rparr>) \<and>
             length F = 256 \<and>
             F ! 0x4E = (ts_frames st ! 0x4E)\<lparr>fi_flags := flagInvalid\<rparr> \<and>
             (\<forall>k. k < 256 \<and> k \<noteq> 0x4E \<longrightarrow>
                  F ! k = runSlot rc (of_nat (runOffset 0 k)) (ts_frames st ! k))"
proof -
  have "\<exists>F. fillFrames rc 0 0 (ts_frames st)
               = Inr (F, runEnd 0 (unat (tr_count rc) - unat (0 :: uint64)))"
    using len cnt by (intro fillFrames_fits) simp_all
  then obtain F where ff: "fillFrames rc 0 0 (ts_frames st) = Inr (F, 256)"
    using cnt by auto
  let ?st1 = "\<lparr>ts_p = p, ts_pts = tr_pts rc, ts_mul = tr_mul rc,
                 ts_stream = tr_stream rc, ts_match = tr_match rc,
                 ts_headIdx = tr_headIdx rc, ts_i = 256, ts_frames = F\<rparr>"
  have step: "tableStep st = Inr ?st1"
    using rec ff i0 by (simp add: tableStep_def)
  have "tableLoop ?st1 = Some (Inr ?st1)"
    by (subst tableLoop.simps) simp
  with step i0 have "tableLoop st = Some (Inr ?st1)"
    by (subst tableLoop.simps) simp
  moreover have "length F = 256"
    using fillFrames_length [OF ff] len by simp
  moreover have "F ! 0x4E = (ts_frames st ! 0x4E)\<lparr>fi_flags := flagInvalid\<rparr>"
    using fillFrames_contents [OF ff] by simp
  moreover have "\<forall>k. k < 256 \<and> k \<noteq> 0x4E \<longrightarrow>
                  F ! k = runSlot rc (of_nat (runOffset 0 k)) (ts_frames st ! k)"
    using fillFrames_contents [OF ff] by simp
  ultimately show ?thesis by blast
qed


lemma readMainHeader_one_record:
  assumes "p_err p0 = None"
    and "p_readUvarint p0 = (version, p1)" and "\<not> 3 < version"
    and "p_readUvarint p1 = (streamCount, p2)"
    and "p_readUvarint p2 = (maxDistance, p3)"
    and "p_readUvarint p3 = (timeBaseCount, p4)" and "makeslice_ok 16 timeBaseCount"
    and "readTimeBases (unat timeBaseCount) p4 = (timeBases, p5)"
    and rec: "\<And>fs. readTableRecord \<lparr>ts_p = p5, ts_pts = 0, ts_mul = 1, ts_stream = 0,
                 ts_match = 1 - push_bit 62 1, ts_headIdx = 0, ts_i = 0, ts_frames = fs\<rparr>
               = (rc, p6)"
    and cnt: "unat (tr_count rc) = 255"
    and "p_readUvarint p6 = (headerCount, p7)"
    and "skipVarBytes (unat (headerCount + 1) - 1) p7 = Inr p8"
    and "p_readUvarint p8 = (flags, p9)"
  shows "\<exists>F. readMainHeader p0 =
               Some (Inr ((Some \<lparr>Version = version, MinorVersion = 0,
                                   StreamCount = streamCount, MaxDistance = maxDistance,
                                   TimeBases = timeBases, Frames = F, Flags = flags\<rparr>,
                           p_err p9), p9)) \<and>
             length F = 256 \<and>
             F ! 0x4E = zeroFrameInfo\<lparr>fi_flags := flagInvalid\<rparr> \<and>
             (\<forall>k. k < 256 \<and> k \<noteq> 0x4E \<longrightarrow>
                  F ! k = runSlot rc (of_nat (runOffset 0 k)) zeroFrameInfo)"
proof -
  let ?st0 = "\<lparr>ts_p = p5, ts_pts = 0, ts_mul = 1, ts_stream = 0,
                 ts_match = 1 - push_bit 62 1, ts_headIdx = 0, ts_i = 0,
                 ts_frames = replicate 256 zeroFrameInfo\<rparr>"
  from tableLoop_full_run [OF rec [of "replicate 256 zeroFrameInfo"] _ _ cnt]
  obtain F where F: "tableLoop ?st0 = Some (Inr \<lparr>ts_p = p6, ts_pts = tr_pts rc,
                 ts_mul = tr_mul rc, ts_stream = tr_stream rc, ts_match = tr_match rc,
                 ts_headIdx = tr_headIdx rc, ts_i = 256, ts_frames = F\<rparr>)"
    "length F = 256"
    "F ! 0x4E = (replicate 256 zeroFrameInfo ! 0x4E)\<lparr>fi_flags := flagInvalid\<rparr>"
    "\<forall>k. k < 256 \<and> k \<noteq> 0x4E \<longrightarrow>
         F ! k = runSlot rc (of_nat (runOffset 0 k)) (replicate 256 zeroFrameInfo ! k)"
    by auto
  have "readMainHeader p0 =
               Some (Inr ((Some \<lparr>Version = version, MinorVersion = 0,
                                   StreamCount = streamCount, MaxDistance = maxDistance,
                                   TimeBases = timeBases, Frames = F, Flags = flags\<rparr>,
                           p_err p9), p9))"
    using assms(1-8,11-13) F(1) by (simp add: readMainHeader_def)
  with F(2-4) show ?thesis by auto
qed

definition exampleRecord :: tableRecord where
  "exampleRecord = \<lparr>tr_flags = 1, tr_stream = 0, tr_mul = 1, tr_size = 0, tr_pts = 0,
     tr_res = 0, tr_match = 1 - push_bit 62 1, tr_headIdx = 0, tr_count = 255\<rparr>"

definition exampleMainHeader :: "byte list" where
  "exampleMainHeader =
     [0x03, 0x01, 0x00, 0x01, 0x01, 0x19,
      0x01, 0x06, 0x00, 0x01, 0x00, 0x00, 0x00, 0x81, 0x7F,
      0x00, 0x00]"

lemma exampleMainHeader_decodes:
  "\<exists>F. readMainHeader \<lparr>p_r = Bufio exampleMainHeader 17 [], p_err = None\<rparr> =
               Some (Inr ((Some \<lparr>Version = 3, MinorVersion = 0,
                                   StreamCount = 1, MaxDistance = 0,
                                   TimeBases = [\<lparr>numerator = 1, denominator = 25\<rparr>],
                                   Frames = F, Flags = 0\<rparr>,
                           None), \<lparr>p_r = Bufio [] 0 [], p_err = None\<rparr>)) \<and>
             length F = 256 \<and>
             F ! 0x4E = zeroFrameInfo\<lparr>fi_flags := flagInvalid\<rparr> \<and>
             (\<forall>k. k < 256 \<and> k \<noteq> 0x4E \<longrightarrow>
                  F ! k = runSlot exampleRecord (of_nat (runOffset 0 k)) zeroFrameInfo)"
proof -
  let ?p = "\<lambda>bs. \<lparr>p_r = Bufio [] 0 bs, p_err = None\<rparr>"
  have "\<exists>F. readMainHeader \<lparr>p_r = Bufio exampleMainHeader 17 [], p_err = None\<rparr> =
               Some (Inr ((Some \<lparr>Version = 3, MinorVersion = 0,
                                   StreamCount = 1, MaxDistance = 0,
                                   TimeBases = [\<lparr>numerator = 1, denominator = 25\<rparr>],
                                   Frames = F, Flags = 0\<rparr>,
                           p_err (?p [])), ?p [])) \<and>
             length F = 256 \<and>
             F ! 0x4E = zeroFrameInfo\<lparr>fi_flags := flagInvalid\<rparr> \<and>
             (\<forall>k. k < 256 \<and> k \<noteq> 0x4E \<longrightarrow>
                  F ! k = runSlot exampleRecord (of_nat (runOffset 0 k)) zeroFrameInfo)"
  proof (rule readMainHeader_one_record)
    show "p_err \<lparr>p_r = Bufio exampleMainHeader 17 [], p_err = None\<rparr> = None" by simp
    show "p_readUvarint \<lparr>p_r = Bufio exampleMainHeader 17 [], p_err = None\<rparr>
            = (3, ?p [0x01, 0x00, 0x01, 0x01, 0x19, 0x01, 0x06, 0x00, 0x01, 0x00, 0x00, 0x00,
                      0x81, 0x7F, 0x00, 0x00])"
      by code_simp
    show "\<not> 3 < (3 :: uint64)" by simp
    show "p_readUvarint (?p [0x01, 0x00, 0x01, 0x01, 0x19, 0x01, 0x06, 0x00, 0x01, 0x00, 0x00,
                             0x00, 0x81, 0x7F, 0x00, 0x00])
            = (1, ?p [0x00, 0x01, 0x01, 0x19, 0x01, 0x06, 0x00, 0x01, 0x00, 0x00, 0x00,
                      0x81, 0x7F, 0x00, 0x00])"
      by code_simp
    show "p_readUvarint (?p [0x00, 0x01, 0x01, 0x19, 0x01, 0x06, 0x00, 0x01, 0x00, 0x00, 0x00,
                             0x81, 0x7F, 0x00, 0x00])
            = (0, ?p [0x01, 0x01, 0x19, 0x01, 0x06, 0x00, 0x01, 0x00, 0x00, 0x00,
                      0x81, 0x7F, 0x00, 0x00])"
      by code_simp
    show "p_readUvarint (?p [0x01, 0x01, 0x19, 0x01, 0x06, 0x00, 0x01, 0x00, 0x00, 0x00,
                             0x81, 0x7F, 0x00, 0x00])
            = (1, ?p [0x01, 0x19, 0x01, 0x06, 0x00, 0x01, 0x00, 0x00, 0x00, 0x81, 0x7F,
                      0x00, 0x00])"
      by code_simp
    show "makeslice_ok 16 (1 :: uint64)" by code_simp
    show "readTimeBases (unat (1 :: uint64))
            (?p [0x01, 0x19, 0x01, 0x06, 0x00, 0x01, 0x00, 0x00, 0x00, 0x81, 0x7F, 0x00, 0x00])
            = ([\<lparr>numerator = 1, denominator = 25\<rparr>],
               ?p [0x01, 0x06, 0x00, 0x01, 0x00, 0x00, 0x00, 0x81, 0x7F, 0x00, 0x00])"
      by code_simp
    show "readTableRecord \<lparr>ts_p = ?p [0x01, 0x06, 0x00, 0x01, 0x00, 0x00, 0x00, 0x81, 0x7F,
                                      0x00, 0x00],
                 ts_pts = 0, ts_mul = 1, ts_stream = 0,
                 ts_match = 1 - push_bit 62 1, ts_headIdx = 0, ts_i = 0, ts_frames = fs\<rparr>
               = (exampleRecord, ?p [0x00, 0x00])" for fs
      unfolding exampleRecord_def by code_simp
    show "unat (tr_count exampleRecord) = 255" by (simp add: exampleRecord_def)
    show "p_readUvarint (?p [0x00, 0x00]) = (0, ?p [0x00])" by code_simp
    show "skipVarBytes (unat ((0 :: uint64) + 1) - 1) (?p [0x00]) = Inr (?p [0x00])" by simp
    show "p_readUvarint (?p [0x00]) = (0, ?p [])" by code_simp
  qed
  then show ?thesis by simp
qed

lemma exampleRecord_fits:
  "\<exists>F. fillFrames exampleRecord 0 0 (replicate 256 zeroFrameInfo) = Inr (F, 256)"
proof -
  have "\<exists>F. fillFrames exampleRecord 0 0 (replicate 256 zeroFrameInfo)
               = Inr (F, runEnd 0 (unat (tr_count exampleRecord) - unat (0 :: uint64)))"
    by (intro fillFrames_fits) (simp_all add: exampleRecord_def)
  then show ?thesis
    by (simp add: exampleRecord_def)
qed

lemma exampleRecord_read:
  "readTableRecord \<lparr>ts_p = \<lparr>p_r = Bufio [] 0 [0x01, 0x06, 0x00, 0x01, 0x00, 0x00,
                                  0x00, 0x81, 0x7F, 0x00, 0x00], p_err = None\<rparr>,
                        ts_pts = 0, ts_mul = 1, ts_stream = 0, ts_match = 1 - push_bit 62 1,
                        ts_headIdx = 0, ts_i = 0, ts_frames = fs\<rparr>
               = (exampleRecord, \<lparr>p_r = Bufio [] 0 [0x00, 0x00], p_err = None\<rparr>)"
  unfolding exampleRecord_def by code_simp

definition exampleTableState :: tableState where
  "exampleTableState =
     \<lparr>ts_p = \<lparr>p_r = Bufio [] 0 [0x01, 0x06, 0x00, 0x01, 0x00, 0x00, 0x00, 0x81, 0x7F,
                               0x00, 0x00], p_err = None\<rparr>,
      ts_pts = 0, ts_mul = 1, ts_stream = 0, ts_match = 1 - push_bit 62 1,
      ts_headIdx = 0, ts_i = 0, ts_frames = replicate 256 zeroFrameInfo\<rparr>"

text \<open>The state in which the table loop repeats after the record \<open>[1, 2, 0, 0]\<close>.\<close>

definition stuckTableState :: tableState where
  "stuckTableState =
     \<lparr>ts_p = \<lparr>p_r = Bufio [] 0 [], p_err = Some EOF\<rparr>,
      ts_pts = 0, ts_mul = 0, ts_stream = 0, ts_match = 1 - push_bit 62 1,
      ts_headIdx = 0, ts_i = 0, ts_frames = replicate 256 zeroFrameInfo\<rparr>"

lemma exampleTableState_init:
  "tableInit \<lparr>p_r = Bufio exampleMainHeader 17 [], p_err = None\<rparr> = exampleTableState"
  by code_simp

lemma exampleTableState_record:
  "readTableRecord exampleTableState
     = (exampleRecord, \<lparr>p_r = Bufio [] 0 [0x00, 0x00], p_err = None\<rparr>)"
  unfolding exampleTableState_def by (rule exampleRecord_read)

lemma exampleTableState_inv: "tableInv exampleTableState"
  by (simp add: tableInv_def exampleTableState_def)

lemma exampleTableState_i: "ts_i exampleTableState = 0"
  by (simp add: exampleTableState_def)

lemma exampleTableState_frames: "ts_frames exampleTableState = replicate 256 zeroFrameInfo"
  by (simp add: exampleTableState_def)

lemma exampleRecord_count: "unat (tr_count exampleRecord) = 255" "0 < tr_count exampleRecord"
  by (simp_all add: exampleRecord_def)

lemma exampleTableState_one_record:
  assumes "tableAfter n exampleTableState = Some st1" and "ts_i st1 < 256"
  shows "st1 = exampleTableState"
proof (cases n)
  case 0
  with assms show ?thesis by simp
next
  case (Suc m)
  have fit: "runEnd (ts_i exampleTableState)
               (unat (tr_count (fst (readTableRecord exampleTableState)))) \<le> 256"
    by (simp add: exampleTableState_record exampleTableState_i exampleRecord_count)
  from tableStep_fits [OF exampleTableState_inv fit] obtain s where
    s: "tableStep exampleTableState = Inr s" and i: "ts_i s = 256"
    by (auto simp: exampleTableState_record exampleTableState_i exampleRecord_count)
  from assms(1) Suc s have a: "tableAfter m s = Some st1"
    by (simp add: exampleTableState_i)
  show ?thesis
  proof (cases m)
    case 0
    with a i assms(2) show ?thesis by simp
  next
    case (Suc l)
    with a i show ?thesis by simp
  qed
qed

lemma stuckTableState_step: "tableStep stuckTableState = Inr stuckTableState"
  by code_simp

lemma readMainHeader_loop_None:
  assumes "p_err p0 = None"
    and "p_readUvarint p0 = (version, p1)" and "\<not> 3 < version"
    and "p_readUvarint p1 = (streamCount, p2)"
    and "p_readUvarint p2 = (maxDistance, p3)"
    and "p_readUvarint p3 = (timeBaseCount, p4)" and "makeslice_ok 16 timeBaseCount"
    and "readTimeBases (unat timeBaseCount) p4 = (timeBases, p5)"
    and "tableLoop \<lparr>ts_p = p5, ts_pts = 0, ts_mul = 1, ts_stream = 0,
                     ts_match = 1 - push_bit 62 1, ts_headIdx = 0, ts_i = 0,
                     ts_frames = replicate 256 zeroFrameInfo\<rparr> = None"
  shows "readMainHeader p0 = None"
  using assms by (simp add: readMainHeader_def)

text \<open>
  C1, as stated for any encoded table, fails on a main header whose first record declares
  the multiplier 0, hence an empty run, and ends there: every further record read from the
  exhausted packet is empty too, the index stays at 0, and the decoder never returns. No
  table is built, so no slot \<open>0x4E\<close> carries the invalid flag.
\<close>

theorem empty_runs_never_fill_the_table:
  "readMainHeader \<lparr>p_r = Bufio [0x03, 0x01, 0x00, 0x00, 0x01, 0x02, 0x00, 0x00] 8 [],
                    p_err = None\<rparr> = None"
proof -
  let ?p = "\<lambda>bs. \<lparr>p_r = Bufio [] 0 bs, p_err = None\<rparr>"
  let ?st = "\<lambda>p mul. \<lparr>ts_p = p, ts_pts = 0, ts_mul = mul, ts_stream = 0,
                     ts_match = 1 - push_bit 62 1, ts_headIdx = 0, ts_i = 0,
                     ts_frames = replicate 256 zeroFrameInfo\<rparr>"
  have s0: "tableStep (?st (?p [0x01, 0x02, 0x00, 0x00]) 1) = Inr (?st (?p []) 0)"
    by code_simp
  have s1: "tableStep (?st (?p []) 0) = Inr stuckTableState"
    by code_simp
  have "tableLoop stuckTableState = None"
    by (rule tableLoop_stuck [OF stuckTableState_step]) (simp add: stuckTableState_def)
  with s1 have "tableLoop (?st (?p []) 0) = None"
    by (subst tableLoop.simps) simp
  with s0 have l: "tableLoop (?st (?p [0x01, 0x02, 0x00, 0x00]) 1) = None"
    by (subst tableLoop.simps) simp
  show ?thesis
  proof (rule readMainHeader_loop_None [OF _ _ _ _ _ _ _ _ l])
    show "p_err \<lparr>p_r = Bufio [0x03, 0x01, 0x00, 0x00, 0x01, 0x02, 0x00, 0x00] 8 [],
                  p_err = None\<rparr> = None"
      by simp
    show "p_readUvarint \<lparr>p_r = Bufio [0x03, 0x01, 0x00, 0x00, 0x01, 0x02, 0x00, 0x00] 8 [],
                          p_err = None\<rparr>
            = (3, ?p [0x01, 0x00, 0x00, 0x01, 0x02, 0x00, 0x00])"
      by code_simp
    show "\<not> 3 < (3 :: uint64)" by simp
    show "p_readUvarint (?p [0x01, 0x00, 0x00, 0x01, 0x02, 0x00, 0x00])
            = (1, ?p [0x00, 0x00, 0x01, 0x02, 0x00, 0x00])"
      by code_simp
    show "p_readUvarint (?p [0x00, 0x00, 0x01, 0x02, 0x00, 0x00])
            = (0, ?p [0x00, 0x01, 0x02, 0x00, 0x00])"
      by code_simp
    show "p_readUvarint (?p [0x00, 0x01, 0x02, 0x00, 0x00])
            = (0, ?p [0x01, 0x02, 0x00, 0x00])"
      by code_simp
    show "makeslice_ok 16 (0 :: uint64)" by code_simp
    show "readTimeBases (unat (0 :: uint64)) (?p [0x01, 0x02, 0x00, 0x00])
            = ([], ?p [0x01, 0x02, 0x00, 0x00])"
      by simp
  qed
qed

theorem frame_table_construction_witness:
  "(\<exists>frames'. fillFrames exampleRecord 0 0 (replicate 256 zeroFrameInfo) = Inr (frames', 256) \<and>
       length frames' = 256 \<and>
       frames' ! 0 = runSlot exampleRecord 0 zeroFrameInfo \<and>
       frames' ! 0x4D = runSlot exampleRecord 77 zeroFrameInfo \<and>
       frames' ! 0x4E = zeroFrameInfo\<lparr>fi_flags := flagInvalid\<rparr> \<and>
       frames' ! 0x4F = runSlot exampleRecord 78 zeroFrameInfo \<and>
       frames' ! 255 = runSlot exampleRecord 254 zeroFrameInfo) \<and>
   (\<exists>st1. tableStep exampleTableState = Inr st1 \<and>
       tableLoop exampleTableState = tableLoop st1 \<and>
       ts_p st1 = \<lparr>p_r = Bufio [] 0 [0x00, 0x00], p_err = None\<rparr> \<and> ts_i st1 = 256) \<and>
   (\<exists>st'. tableLoop exampleTableState = Some (Inr st') \<and>
       tableAfter 1 exampleTableState = Some st' \<and>
       ts_i st' = 256 \<and> length (ts_frames st') = 256 \<and>
       ts_frames st' ! 0 = runSlot exampleRecord 0 zeroFrameInfo \<and>
       ts_frames st' ! 0x4D = runSlot exampleRecord 77 zeroFrameInfo \<and>
       ts_frames st' ! 0x4E = zeroFrameInfo\<lparr>fi_flags := flagInvalid\<rparr> \<and>
       ts_frames st' ! 0x4F = runSlot exampleRecord 78 zeroFrameInfo \<and>
       ts_frames st' ! 255 = runSlot exampleRecord 254 zeroFrameInfo) \<and>
   (\<exists>h p'. readMainHeader \<lparr>p_r = Bufio exampleMainHeader 17 [], p_err = None\<rparr>
              = Some (Inr ((Some h, None), p')) \<and>
       length (Frames h) = 256 \<and>
       Frames h ! 0 = runSlot exampleRecord 0 zeroFrameInfo \<and>
       Frames h ! 0x4D = runSlot exampleRecord 77 zeroFrameInfo \<and>
       Frames h ! 0x4E = zeroFrameInfo\<lparr>fi_flags := flagInvalid\<rparr> \<and>
       Frames h ! 0x4F = runSlot exampleRecord 78 zeroFrameInfo \<and>
       Frames h ! 255 = runSlot exampleRecord 254 zeroFrameInfo) \<and>
   tableLoop stuckTableState = None"
proof (intro conjI)
  from exampleRecord_fits obtain F
    where ff: "fillFrames exampleRecord 0 0 (replicate 256 zeroFrameInfo) = Inr (F, 256)"
    by blast
  then have pre: "fillFrames exampleRecord 0 0 (replicate 256 zeroFrameInfo) = Inr (F, 256) \<and>
      length (replicate 256 zeroFrameInfo) = 256 \<and> (0::nat) \<le> 256"
    by simp
  note u = frame_table_construction
    [of exampleRecord 0 "replicate 256 zeroFrameInfo" F 256, THEN conjunct1, rule_format, OF pre]
  have len: "length F = 256"
    using u by blast
  have slot: "F ! k = runSlot exampleRecord (of_nat (runOffset 0 k))
                        (replicate 256 zeroFrameInfo ! k)"
    if "k < 256" "k \<noteq> 0x4E" for k
    using u that by simp
  have m: "F ! 0x4E = zeroFrameInfo\<lparr>fi_flags := flagInvalid\<rparr>"
    using u by simp
  have s0: "F ! 0 = runSlot exampleRecord 0 zeroFrameInfo"
    using slot [of 0] by (simp add: runOffset_def)
  have s77: "F ! 0x4D = runSlot exampleRecord 77 zeroFrameInfo"
    using slot [of "0x4D"] by (simp add: runOffset_def)
  have s79: "F ! 0x4F = runSlot exampleRecord 78 zeroFrameInfo"
    using slot [of "0x4F"] by (simp add: runOffset_def)
  have s255: "F ! 255 = runSlot exampleRecord 254 zeroFrameInfo"
    using slot [of 255] by (simp add: runOffset_def)
  from ff len s0 s77 m s79 s255
  show "\<exists>frames'. fillFrames exampleRecord 0 0 (replicate 256 zeroFrameInfo) = Inr (frames', 256) \<and>
       length frames' = 256 \<and>
       frames' ! 0 = runSlot exampleRecord 0 zeroFrameInfo \<and>
       frames' ! 0x4D = runSlot exampleRecord 77 zeroFrameInfo \<and>
       frames' ! 0x4E = zeroFrameInfo\<lparr>fi_flags := flagInvalid\<rparr> \<and>
       frames' ! 0x4F = runSlot exampleRecord 78 zeroFrameInfo \<and>
       frames' ! 255 = runSlot exampleRecord 254 zeroFrameInfo"
    by blast
next
  have pre: "tableInv exampleTableState \<and> ts_i exampleTableState < 256 \<and>
    runEnd (ts_i exampleTableState)
      (unat (tr_count (fst (readTableRecord exampleTableState)))) \<le> 256"
    by (simp add: exampleTableState_inv exampleTableState_record exampleTableState_i
          exampleRecord_count)
  note u = frame_table_construction
    [where st = exampleTableState, THEN conjunct2, THEN conjunct1, rule_format, OF pre]
  then obtain st1 where "tableStep exampleTableState = Inr st1"
    "tableLoop exampleTableState = tableLoop st1"
    "ts_p st1 = snd (readTableRecord exampleTableState)"
    "ts_i st1 = runEnd (ts_i exampleTableState)
                  (unat (tr_count (fst (readTableRecord exampleTableState))))"
    by blast
  then have "tableStep exampleTableState = Inr st1 \<and>
       tableLoop exampleTableState = tableLoop st1 \<and>
       ts_p st1 = \<lparr>p_r = Bufio [] 0 [0x00, 0x00], p_err = None\<rparr> \<and> ts_i st1 = 256"
    by (simp add: exampleTableState_record exampleTableState_i exampleRecord_count)
  then show "\<exists>st1. tableStep exampleTableState = Inr st1 \<and>
       tableLoop exampleTableState = tableLoop st1 \<and>
       ts_p st1 = \<lparr>p_r = Bufio [] 0 [0x00, 0x00], p_err = None\<rparr> \<and> ts_i st1 = 256"
    by (rule exI)
next
  have ok: "\<forall>n st1. tableAfter n exampleTableState = Some st1 \<and> ts_i st1 < 256 \<longrightarrow>
       0 < tr_count (fst (readTableRecord st1)) \<and>
       runEnd (ts_i st1) (unat (tr_count (fst (readTableRecord st1)))) \<le> 256"
  proof (intro allI impI)
    fix n st1
    assume "tableAfter n exampleTableState = Some st1 \<and> ts_i st1 < 256"
    then have "st1 = exampleTableState"
      using exampleTableState_one_record by blast
    then show "0 < tr_count (fst (readTableRecord st1)) \<and>
       runEnd (ts_i st1) (unat (tr_count (fst (readTableRecord st1)))) \<le> 256"
      by (simp add: exampleTableState_record exampleTableState_i exampleRecord_count)
  qed
  with exampleTableState_inv have pre: "tableInv exampleTableState \<and>
    (\<forall>n st1. tableAfter n exampleTableState = Some st1 \<and> ts_i st1 < 256 \<longrightarrow>
       0 < tr_count (fst (readTableRecord st1)) \<and>
       runEnd (ts_i st1) (unat (tr_count (fst (readTableRecord st1)))) \<le> 256)"
    by simp
  note total = frame_table_construction
    [where st = exampleTableState,
     THEN conjunct2, THEN conjunct2, THEN conjunct2, THEN conjunct1, rule_format, OF pre]
  then obtain st' where tl: "tableLoop exampleTableState = Some (Inr st')"
    by blast
  note iff = frame_table_construction
    [where st = exampleTableState and st' = st',
     THEN conjunct2, THEN conjunct2, THEN conjunct1]
  from tl iff obtain n where n: "tableAfter n exampleTableState = Some st'"
    and i': "\<not> ts_i st' < 256"
    by blast
  have one: "tableAfter 1 exampleTableState = Some st'"
  proof (cases n)
    case 0
    with n i' show ?thesis by (simp add: exampleTableState_i)
  next
    case (Suc m)
    note sm = this
    show ?thesis
    proof (cases m)
      case 0
      with sm n show ?thesis by simp
    next
      case (Suc l)
      from n sm obtain s where s: "tableStep exampleTableState = Inr s"
        and a: "tableAfter m s = Some st'"
        by (auto split: if_splits sum.splits)
      have "tableAfter 1 exampleTableState = Some s"
        using s by (simp add: exampleTableState_i)
      moreover have "ts_i s = 256"
        using tableStep_run [OF s exampleTableState_inv]
        by (simp add: exampleTableState_record exampleTableState_i exampleRecord_count)
      with a Suc have False by simp
      then show ?thesis ..
    qed
  qed
  from tl exampleTableState_inv
  have pre2: "tableLoop exampleTableState = Some (Inr st') \<and> tableInv exampleTableState"
    by simp
  note u = frame_table_construction
    [where st = exampleTableState and st' = st',
     THEN conjunct2, THEN conjunct2, THEN conjunct2, THEN conjunct2, THEN conjunct1,
     rule_format, OF pre2]
  have i256: "ts_i st' = 256" and len: "length (ts_frames st') = 256"
    using u by blast+
  have m: "ts_frames st' ! 0x4E = zeroFrameInfo\<lparr>fi_flags := flagInvalid\<rparr>"
    using u by (simp add: exampleTableState_i exampleTableState_frames)
  have a0: "tableAfter 0 exampleTableState = Some exampleTableState" by simp
  have slot: "ts_frames st' ! k = runSlot exampleRecord (of_nat (runOffset 0 k)) zeroFrameInfo"
    if "k < 256" "k \<noteq> 0x4E" for k
  proof -
    from u have "\<forall>n st1 k. tableAfter n exampleTableState = Some st1 \<and> ts_i st1 < 256 \<and>
           ts_i st1 \<le> k \<and>
           k < runEnd (ts_i st1) (unat (tr_count (fst (readTableRecord st1)))) \<and> k \<noteq> 0x4E \<longrightarrow>
           ts_frames st' ! k
             = runSlot (fst (readTableRecord st1)) (of_nat (runOffset (ts_i st1) k))
                 (ts_frames exampleTableState ! k)"
      by blast
    from this [rule_format, of 0 exampleTableState k] a0 that show ?thesis
      by (simp add: exampleTableState_record exampleTableState_i exampleRecord_count
            exampleTableState_frames)
  qed
  have s0: "ts_frames st' ! 0 = runSlot exampleRecord 0 zeroFrameInfo"
    using slot [of 0] by (simp add: runOffset_def)
  have s77: "ts_frames st' ! 0x4D = runSlot exampleRecord 77 zeroFrameInfo"
    using slot [of "0x4D"] by (simp add: runOffset_def)
  have s79: "ts_frames st' ! 0x4F = runSlot exampleRecord 78 zeroFrameInfo"
    using slot [of "0x4F"] by (simp add: runOffset_def)
  have s255: "ts_frames st' ! 255 = runSlot exampleRecord 254 zeroFrameInfo"
    using slot [of 255] by (simp add: runOffset_def)
  from tl one i256 len s0 s77 m s79 s255
  show "\<exists>st'. tableLoop exampleTableState = Some (Inr st') \<and>
       tableAfter 1 exampleTableState = Some st' \<and>
       ts_i st' = 256 \<and> length (ts_frames st') = 256 \<and>
       ts_frames st' ! 0 = runSlot exampleRecord 0 zeroFrameInfo \<and>
       ts_frames st' ! 0x4D = runSlot exampleRecord 77 zeroFrameInfo \<and>
       ts_frames st' ! 0x4E = zeroFrameInfo\<lparr>fi_flags := flagInvalid\<rparr> \<and>
       ts_frames st' ! 0x4F = runSlot exampleRecord 78 zeroFrameInfo \<and>
       ts_frames st' ! 255 = runSlot exampleRecord 254 zeroFrameInfo"
    by blast
next
  let ?p = "\<lparr>p_r = Bufio exampleMainHeader 17 [], p_err = None\<rparr>"
  from exampleMainHeader_decodes obtain h p' where
    rd: "readMainHeader ?p = Some (Inr ((Some h, None), p'))"
    by blast
  note u = frame_table_construction
    [where p = ?p and h = h and e = None and p' = p',
     THEN conjunct2, THEN conjunct2, THEN conjunct2, THEN conjunct2, THEN conjunct2,
     THEN conjunct1, rule_format, OF rd]
  have len: "length (Frames h) = 256"
    using u by blast
  have m: "Frames h ! 0x4E = zeroFrameInfo\<lparr>fi_flags := flagInvalid\<rparr>"
    using u by blast
  have a0: "tableAfter 0 (tableInit ?p) = Some exampleTableState"
    by (simp add: exampleTableState_init)
  have slot: "Frames h ! k = runSlot exampleRecord (of_nat (runOffset 0 k)) zeroFrameInfo"
    if "k < 256" "k \<noteq> 0x4E" for k
  proof -
    from u have "\<forall>n st1 k. tableAfter n (tableInit ?p) = Some st1 \<and> ts_i st1 < 256 \<and>
           ts_i st1 \<le> k \<and>
           k < runEnd (ts_i st1) (unat (tr_count (fst (readTableRecord st1)))) \<and> k \<noteq> 0x4E \<longrightarrow>
           Frames h ! k
             = runSlot (fst (readTableRecord st1)) (of_nat (runOffset (ts_i st1) k))
                 zeroFrameInfo"
      by blast
    from this [rule_format, of 0 exampleTableState k] a0 that show ?thesis
      by (simp add: exampleTableState_record exampleTableState_i exampleRecord_count)
  qed
  have s0: "Frames h ! 0 = runSlot exampleRecord 0 zeroFrameInfo"
    using slot [of 0] by (simp add: runOffset_def)
  have s77: "Frames h ! 0x4D = runSlot exampleRecord 77 zeroFrameInfo"
    using slot [of "0x4D"] by (simp add: runOffset_def)
  have s79: "Frames h ! 0x4F = runSlot exampleRecord 78 zeroFrameInfo"
    using slot [of "0x4F"] by (simp add: runOffset_def)
  have s255: "Frames h ! 255 = runSlot exampleRecord 254 zeroFrameInfo"
    using slot [of 255] by (simp add: runOffset_def)
  from rd len s0 s77 m s79 s255
  show "\<exists>h p'. readMainHeader ?p = Some (Inr ((Some h, None), p')) \<and>
       length (Frames h) = 256 \<and>
       Frames h ! 0 = runSlot exampleRecord 0 zeroFrameInfo \<and>
       Frames h ! 0x4D = runSlot exampleRecord 77 zeroFrameInfo \<and>
       Frames h ! 0x4E = zeroFrameInfo\<lparr>fi_flags := flagInvalid\<rparr> \<and>
       Frames h ! 0x4F = runSlot exampleRecord 78 zeroFrameInfo \<and>
       Frames h ! 255 = runSlot exampleRecord 254 zeroFrameInfo"
    by blast
next
  have pre: "tableStep stuckTableState = Inr stuckTableState \<and> ts_i stuckTableState < 256"
    by (simp add: stuckTableState_step) (simp add: stuckTableState_def)
  show "tableLoop stuckTableState = None"
    by (rule frame_table_construction
         [where st = stuckTableState,
          THEN conjunct2, THEN conjunct2, THEN conjunct2, THEN conjunct2, THEN conjunct2,
          THEN conjunct2, THEN conjunct1, rule_format, OF pre])
qed

theorem fill_loop_has_no_bound_check_witness:
  "(\<exists>frames'. fillFrames exampleRecord 0 0 (replicate 256 zeroFrameInfo) = Inr (frames', 256)) \<and>
   fillFrames (exampleRecord\<lparr>tr_count := 256\<rparr>) 0 0 (replicate 256 zeroFrameInfo)
     = Inl (IndexOutOfRange 256 256) \<and>
   tableLoop \<lparr>ts_p = \<lparr>p_r = Bufio [] 0 [0x01, 0x06, 0x00, 0x01, 0x00, 0x00, 0x00, 0x82, 0x00],
                        p_err = None\<rparr>,
              ts_pts = 0, ts_mul = 1, ts_stream = 0, ts_match = 1 - push_bit 62 1,
              ts_headIdx = 0, ts_i = 0, ts_frames = replicate 256 zeroFrameInfo\<rparr>
     = Some (Inl (IndexOutOfRange 256 256)) \<and>
   tableLoop \<lparr>ts_p = \<lparr>p_r = Bufio [] 0 [0x01, 0x04, 0x00, 0x01, 0x00, 0x02], p_err = None\<rparr>,
              ts_pts = 0, ts_mul = 1, ts_stream = 0, ts_match = 1 - push_bit 62 1,
              ts_headIdx = 0, ts_i = 0, ts_frames = replicate 256 zeroFrameInfo\<rparr>
     = Some (Inl (IndexOutOfRange 256 256))"
proof (intro conjI)
  have pre: "length (replicate 256 zeroFrameInfo) = 256 \<and> (0::nat) \<le> 256 \<and>
             runEnd 0 (unat (tr_count exampleRecord)) \<le> 256"
    by (simp add: exampleRecord_def)
  note u = fill_loop_has_no_bound_check
    [where frames = "replicate 256 zeroFrameInfo" and i = 0 and rc = exampleRecord,
     THEN conjunct1, rule_format, OF pre]
  then show "\<exists>frames'. fillFrames exampleRecord 0 0 (replicate 256 zeroFrameInfo)
                = Inr (frames', 256)"
    by (simp add: exampleRecord_def)
next
  have pre: "length (replicate 256 zeroFrameInfo) = 256 \<and> (0::nat) \<le> 256 \<and>
             256 < runEnd 0 (unat (tr_count (exampleRecord\<lparr>tr_count := 256\<rparr>)))"
    by (simp add: runEnd_def)
  show "fillFrames (exampleRecord\<lparr>tr_count := 256\<rparr>) 0 0 (replicate 256 zeroFrameInfo)
     = Inl (IndexOutOfRange 256 256)"
    by (rule fill_loop_has_no_bound_check
         [where frames = "replicate 256 zeroFrameInfo" and i = 0
            and rc = "exampleRecord\<lparr>tr_count := 256\<rparr>",
          THEN conjunct2, THEN conjunct1, rule_format, OF pre])
next
  let ?st = "\<lparr>ts_p = \<lparr>p_r = Bufio [] 0 [0x01, 0x06, 0x00, 0x01, 0x00, 0x00, 0x00, 0x82, 0x00],
                        p_err = None\<rparr>,
              ts_pts = 0, ts_mul = 1, ts_stream = 0, ts_match = 1 - push_bit 62 1,
              ts_headIdx = 0, ts_i = 0, ts_frames = replicate 256 zeroFrameInfo\<rparr>"
  have rec: "readTableRecord ?st
               = (exampleRecord\<lparr>tr_count := 256\<rparr>, \<lparr>p_r = Bufio [] 0 [], p_err = None\<rparr>)"
  proof -
    have "readTableRecord \<lparr>ts_p = \<lparr>p_r = Bufio [] 0 [0x01, 0x06, 0x00, 0x01, 0x00, 0x00,
                                  0x00, 0x82, 0x00], p_err = None\<rparr>,
                        ts_pts = 0, ts_mul = 1, ts_stream = 0, ts_match = 1 - push_bit 62 1,
                        ts_headIdx = 0, ts_i = 0, ts_frames = fs\<rparr>
               = (exampleRecord\<lparr>tr_count := 256\<rparr>, \<lparr>p_r = Bufio [] 0 [], p_err = None\<rparr>)"
      for fs
      unfolding exampleRecord_def by code_simp
    then show ?thesis .
  qed
  have pre: "tableInv ?st \<and> ts_i ?st < 256 \<and>
             256 < runEnd (ts_i ?st) (unat (tr_count (fst (readTableRecord ?st))))"
    unfolding rec by (simp add: tableInv_def runEnd_def)
  show "tableLoop ?st = Some (Inl (IndexOutOfRange 256 256))"
    by (rule fill_loop_has_no_bound_check
         [where st = ?st, THEN conjunct2, THEN conjunct2, THEN conjunct1, rule_format, OF pre])
next
  let ?st = "\<lparr>ts_p = \<lparr>p_r = Bufio [] 0 [0x01, 0x04, 0x00, 0x01, 0x00, 0x02], p_err = None\<rparr>,
              ts_pts = 0, ts_mul = 1, ts_stream = 0, ts_match = 1 - push_bit 62 1,
              ts_headIdx = 0, ts_i = 0, ts_frames = replicate 256 zeroFrameInfo\<rparr>"
  have rec: "readTableRecord ?st
               = (exampleRecord\<lparr>tr_size := 2, tr_count := 1 - 2\<rparr>,
                  \<lparr>p_r = Bufio [] 0 [], p_err = None\<rparr>)"
  proof -
    have "readTableRecord \<lparr>ts_p = \<lparr>p_r = Bufio [] 0 [0x01, 0x04, 0x00, 0x01, 0x00, 0x02],
                                  p_err = None\<rparr>,
                        ts_pts = 0, ts_mul = 1, ts_stream = 0, ts_match = 1 - push_bit 62 1,
                        ts_headIdx = 0, ts_i = 0, ts_frames = fs\<rparr>
               = (exampleRecord\<lparr>tr_size := 2, tr_count := 1 - 2\<rparr>,
                  \<lparr>p_r = Bufio [] 0 [], p_err = None\<rparr>)"
      for fs
      unfolding exampleRecord_def by code_simp
    then show ?thesis .
  qed
  have pre: "tableInv ?st \<and> ts_i ?st < 256 \<and>
             tr_count (fst (readTableRecord ?st))
               = tr_mul (fst (readTableRecord ?st)) - tr_size (fst (readTableRecord ?st)) \<and>
             tr_mul (fst (readTableRecord ?st)) < tr_size (fst (readTableRecord ?st))"
    unfolding rec by (simp add: tableInv_def exampleRecord_def)
  note u = fill_loop_has_no_bound_check
         [where st = ?st, THEN conjunct2, THEN conjunct2, THEN conjunct2, rule_format, OF pre]
  then show "tableLoop ?st = Some (Inl (IndexOutOfRange 256 256))"
    by blast
qed

section \<open>The session state across calls\<close>

subsection \<open>The stages of readFrame\<close>

lemma readFrame_unfold:
  assumes "d_err d = None" and "unat c < length (Frames mh)"
    and "meta = Frames mh ! unat c"
    and "(if fi_flags meta AND flagCoded > 0
          then (case d_readUvarint d of (codedFlags, d) \<Rightarrow> (fi_flags meta XOR codedFlags, d))
          else (fi_flags meta, d)) = (flags, d1)"
    and "(if flags AND flagStreamID > 0 then d_readUvarint d1
          else (fi_streamID meta, d1)) = (streamID, d2)"
    and "(if flags AND flagCodedPts > 0 then d_readUvarint d2 else (0, d2)) = (codedPTS, d3)"
    and "(if flags AND flagSizeMSB > 0 then d_readUvarint d3 else (0, d3)) = (dataSizeMsb, d4)"
    and "size' = (if flags AND flagSizeMSB > 0 then fi_lsb meta + fi_mul meta * dataSizeMsb
                  else fi_lsb meta)"
    and "(if flags AND flagMatchTime > 0 then d_readVarint d4
          else (fi_matchTimeDelta meta, d4)) = (matchTimeDelta, d5)"
    and "(if flags AND flagHeaderIdx > 0 then d_readUvarint d5
          else (fi_headerIdx meta, d5)) = (headerIdx, d6)"
    and "(if flags AND flagReserved > 0 then d_readUvarint d6 else (0, d6)) = (res, d7)"
    and "d8 = d_skipUvarints (unat res) d7"
  shows "readFrame c (Some mh) d =
     (case (if flags AND flagChecksum > 0 then ReadFull (d_r d8) 4
            else ([], None, d_r d8)) of
        (csum, Some e, r1) \<Rightarrow> Inr (Inl e, d8\<lparr>d_r := r1, d_err := Some e\<rparr>)
      | (csum, None, r1) \<Rightarrow>
          if \<not> makeslice_ok 1 size' then Inl MakesliceLenOutOfRange
          else
            (case ReadFull r1 (unat size') of
               (got, Some e, r2) \<Rightarrow> Inr (Inl e, d8\<lparr>d_r := r2, d_err := Some e\<rparr>)
             | (got, None, r2) \<Rightarrow>
                 Inr (Inr \<lparr>f_streamID = streamID, f_codedPTS = codedPTS,
                            f_dataSizeMsb = dataSizeMsb, f_matchTimeDelta = matchTimeDelta,
                            f_headerIdx = headerIdx, f_res = res,
                            f_data = buffer (unat size') got, f_dataAccessed = False\<rparr>,
                      d8\<lparr>d_r := r2\<rparr>)))"
proof -
  note s = assms(4-7,9-11) [unfolded assms(3)]
  show ?thesis
    unfolding readFrame_def Let_def assms(3) assms(8) assms(12)
    by (simp only: assms(1) assms(2) s option.case prod.case simp_thms if_False)
qed

lemma d_readUvarint_fields:
  "d_readUvarint d = (x, d') \<Longrightarrow>
   d_mainHeader d' = d_mainHeader d \<and> readHeaderOnce d' = readHeaderOnce d"
  by (auto simp: d_readUvarint_def split: if_splits prod.splits option.splits)

lemma d_readVarint_fields:
  "d_readVarint d = (x, d') \<Longrightarrow>
   d_mainHeader d' = d_mainHeader d \<and> readHeaderOnce d' = readHeaderOnce d"
  by (auto simp: d_readVarint_def split: if_splits prod.splits option.splits)

lemma opt_d_readUvarint_fields:
  "(if c then d_readUvarint d else (v, d)) = (x, d') \<Longrightarrow>
   d_mainHeader d' = d_mainHeader d \<and> readHeaderOnce d' = readHeaderOnce d"
  by (auto split: if_splits dest: d_readUvarint_fields)

lemma opt_d_readVarint_fields:
  "(if c then d_readVarint d else (v, d)) = (x, d') \<Longrightarrow>
   d_mainHeader d' = d_mainHeader d \<and> readHeaderOnce d' = readHeaderOnce d"
  by (auto split: if_splits dest: d_readVarint_fields)

lemma coded_flags_fields:
  "(if c then (case d_readUvarint d of (codedFlags, d) \<Rightarrow> (f codedFlags, d)) else (v, d))
     = (x, d') \<Longrightarrow>
   d_mainHeader d' = d_mainHeader d \<and> readHeaderOnce d' = readHeaderOnce d"
  by (auto split: if_splits prod.splits dest: d_readUvarint_fields)

lemma d_skipUvarints_fields:
  "d_mainHeader (d_skipUvarints n d) = d_mainHeader d \<and>
   readHeaderOnce (d_skipUvarints n d) = readHeaderOnce d"
proof (induction n arbitrary: d)
  case 0
  show ?case by simp
next
  case (Suc n)
  obtain x d1 where r: "d_readUvarint d = (x, d1)" by (cases "d_readUvarint d")
  with Suc [of d1] d_readUvarint_fields [OF r] show ?case by simp
qed

lemma readFrame_fields:
  assumes rf: "readFrame c h d = Inr (res, d')"
  shows "d_mainHeader d' = d_mainHeader d \<and> readHeaderOnce d' = readHeaderOnce d"
proof (cases "d_err d")
  case (Some e)
  with rf show ?thesis by (simp add: readFrame_def)
next
  case None
  from rf None obtain mh where h: "h = Some mh"
    by (cases h) (simp_all add: readFrame_def)
  from rf None h have c: "unat c < length (Frames mh)"
    by (auto simp: readFrame_def split: if_splits)
  define meta where "meta = Frames mh ! unat c"
  obtain flags d1 where s1: "(if fi_flags meta AND flagCoded > 0
          then (case d_readUvarint d of (codedFlags, d) \<Rightarrow> (fi_flags meta XOR codedFlags, d))
          else (fi_flags meta, d)) = (flags, d1)"
    by fastforce
  obtain streamID d2 where s2: "(if flags AND flagStreamID > 0 then d_readUvarint d1
          else (fi_streamID meta, d1)) = (streamID, d2)"
    by fastforce
  obtain codedPTS d3 where s3:
    "(if flags AND flagCodedPts > 0 then d_readUvarint d2 else (0, d2)) = (codedPTS, d3)"
    by fastforce
  obtain dataSizeMsb d4 where s4:
    "(if flags AND flagSizeMSB > 0 then d_readUvarint d3 else (0, d3)) = (dataSizeMsb, d4)"
    by fastforce
  define size' where "size' = (if flags AND flagSizeMSB > 0
      then fi_lsb meta + fi_mul meta * dataSizeMsb else fi_lsb meta)"
  obtain matchTimeDelta d5 where s5: "(if flags AND flagMatchTime > 0 then d_readVarint d4
          else (fi_matchTimeDelta meta, d4)) = (matchTimeDelta, d5)"
    by fastforce
  obtain headerIdx d6 where s6: "(if flags AND flagHeaderIdx > 0 then d_readUvarint d5
          else (fi_headerIdx meta, d5)) = (headerIdx, d6)"
    by fastforce
  obtain res' d7 where s7:
    "(if flags AND flagReserved > 0 then d_readUvarint d6 else (0, d6)) = (res', d7)"
    by fastforce
  define d8 where "d8 = d_skipUvarints (unat res') d7"
  note u = readFrame_unfold [OF None c meta_def s1 s2 s3 s4 size'_def s5 s6 s7 d8_def]
  have f8: "d_mainHeader d8 = d_mainHeader d \<and> readHeaderOnce d8 = readHeaderOnce d"
    using coded_flags_fields [OF s1] opt_d_readUvarint_fields [OF s2]
      opt_d_readUvarint_fields [OF s3] opt_d_readUvarint_fields [OF s4]
      opt_d_readVarint_fields [OF s5] opt_d_readUvarint_fields [OF s6]
      opt_d_readUvarint_fields [OF s7] d_skipUvarints_fields [of "unat res'" d7]
    by (simp add: d8_def)
  from rf [unfolded h u] have "d_mainHeader d' = d_mainHeader d8 \<and>
      readHeaderOnce d' = readHeaderOnce d8"
    by (auto split: prod.splits option.splits if_splits)
  with f8 show ?thesis by simp
qed


lemma readPacketHeader_fields:
  "readPacketHeader d = ((hdr, e), d') \<Longrightarrow>
   d_mainHeader d' = d_mainHeader d \<and> readHeaderOnce d' = readHeaderOnce d"
  by (auto simp: readPacketHeader_def split: prod.splits option.splits if_splits)

text \<open>
  What one pass of the loop leaves in the demuxer: \<open>readHeaderOnce\<close> as it was, a stored
  main header as it was, and with a returned error that error in \<open>d.err\<close>.
\<close>

definition stepKeeps :: "Demuxer \<Rightarrow> step \<Rightarrow> bool" where
  "stepKeeps d s =
     (case s of
        Continue d' \<Rightarrow>
          readHeaderOnce d' = readHeaderOnce d \<and>
          (d_mainHeader d = None \<or> d_mainHeader d' = d_mainHeader d)
      | Return r d' \<Rightarrow>
          readHeaderOnce d' = readHeaderOnce d \<and>
          (d_mainHeader d = None \<or> d_mainHeader d' = d_mainHeader d) \<and>
          (case r of Inl e \<Rightarrow> d_err d' = Some e | Inr ev \<Rightarrow> True))"

lemma readPacket_keeps:
  "readPacket d header = Some (Inr s) \<Longrightarrow> stepKeeps d s"
  unfolding readPacket_def Let_def
  by (auto simp: stepKeeps_def afterPacket_def
           split: if_splits option.splits sum.splits prod.splits)

lemma readUnit_keeps:
  assumes "readUnit d = Some (Inr s)"
  shows "stepKeeps d s"
proof -
  obtain got e r' where rf: "ReadFull (d_r d) 1 = (got, e, r')"
    by (cases "ReadFull (d_r d) 1")
  show ?thesis
  proof (cases e)
    case (Some er)
    with assms rf show ?thesis by (auto simp: readUnit_def stepKeeps_def)
  next
    case None
    let ?d = "d\<lparr>d_r := r'\<rparr>"
    show ?thesis
    proof (cases "buffer 1 got ! 0 = 0x4E")
      case True
      obtain hdr e2 d2 where ph: "readPacketHeader ?d = ((hdr, e2), d2)"
        by (cases "readPacketHeader ?d") auto
      note f = readPacketHeader_fields [OF ph]
      show ?thesis
      proof (cases e2)
        case (Some er)
        with assms rf None True ph f show ?thesis
          by (auto simp: readUnit_def stepKeeps_def Let_def)
      next
        case n2: None
        with assms rf None True ph have "readPacket d2 hdr = Some (Inr s)"
          by (simp add: readUnit_def Let_def)
        from readPacket_keeps [OF this] f show ?thesis
          by (auto simp: stepKeeps_def split: step.splits)
      qed
    next
      case False
      with assms rf None obtain res d2 where
        fr: "readFrame (buffer 1 got ! 0) (d_mainHeader ?d) ?d = Inr (res, d2)"
        by (auto simp: readUnit_def Let_def split: sum.splits)
      note f = readFrame_fields [OF fr]
      from assms rf None False fr f show ?thesis
        by (auto simp: readUnit_def Let_def stepKeeps_def split: sum.splits)
    qed
  qed
qed

lemma ReadEvent_loop_keeps:
  assumes "ReadEvent_loop d = Some (Inr (r, d'))"
  shows "readHeaderOnce d' = readHeaderOnce d \<and>
         (d_mainHeader d = None \<or> d_mainHeader d' = d_mainHeader d) \<and>
         (case r of Inl e \<Rightarrow> d_err d' = Some e | Inr ev \<Rightarrow> True)"
proof -
  let ?Q = "\<lambda>d (y :: panic + (error + event) \<times> Demuxer). \<forall>r d'. y = Inr (r, d') \<longrightarrow>
         readHeaderOnce d' = readHeaderOnce d \<and>
         (d_mainHeader d = None \<or> d_mainHeader d' = d_mainHeader d) \<and>
         (case r of Inl e \<Rightarrow> d_err d' = Some e | Inr ev \<Rightarrow> True)"
  have "?Q d (Inr (r, d'))"
  proof (rule ReadEvent_loop.raw_induct [where P = ?Q, OF _ assms])
    fix loop d y
    assume IH: "\<And>x y. loop x = Some y \<Longrightarrow> ?Q x y"
      and eq: "(case d_err d of
                  None \<Rightarrow>
                    (case readUnit d of
                       None \<Rightarrow> None
                     | Some (Inl pn) \<Rightarrow> Some (Inl pn)
                     | Some (Inr (Continue d')) \<Rightarrow> loop d'
                     | Some (Inr (Return res d')) \<Rightarrow> Some (Inr (res, d')))
                | Some e \<Rightarrow> Some (Inr (Inl e, d))) = Some y"
    show "?Q d y"
    proof (intro allI impI)
      fix r d' assume y: "y = Inr (r, d')"
      show "readHeaderOnce d' = readHeaderOnce d \<and>
         (d_mainHeader d = None \<or> d_mainHeader d' = d_mainHeader d) \<and>
         (case r of Inl e \<Rightarrow> d_err d' = Some e | Inr ev \<Rightarrow> True)"
      proof (cases "d_err d")
        case (Some e)
        with eq y show ?thesis by auto
      next
        case None
        with eq y obtain s where ru: "readUnit d = Some (Inr s)"
          by (auto split: option.splits sum.splits)
        note k = readUnit_keeps [OF ru]
        show ?thesis
        proof (cases s)
          case (Continue d1)
          with eq y None ru have "loop d1 = Some (Inr (r, d'))" by simp
          from IH [OF this] k Continue show ?thesis
            by (auto simp: stepKeeps_def)
        next
          case (Return res d1)
          with eq y None ru k show ?thesis
            by (auto simp: stepKeeps_def)
        qed
      qed
    qed
  qed
  then show ?thesis by simp
qed

lemma ReadEvent_loop_err:
  "d_err d = Some e \<Longrightarrow> ReadEvent_loop d = Some (Inr (Inl e, d))"
  by (subst ReadEvent_loop.simps) simp

lemma readFileHeader_fields:
  "readFileHeader d = (e, d') \<Longrightarrow>
   d_mainHeader d' = d_mainHeader d \<and> readHeaderOnce d' = readHeaderOnce d"
  by (auto simp: readFileHeader_def split: prod.splits option.splits)

lemma ReadEvent_keeps:
  assumes "ReadEvent d = Some (Inr (r, d'))"
  shows "readHeaderOnce d' \<and>
         (d_mainHeader d = None \<or> d_mainHeader d' = d_mainHeader d) \<and>
         (case r of Inl e \<Rightarrow> d_err d' = Some e | Inr ev \<Rightarrow> True)"
proof (cases "readHeaderOnce d")
  case True
  with assms have "ReadEvent_loop d = Some (Inr (r, d'))" by (simp add: ReadEvent_def)
  from ReadEvent_loop_keeps [OF this] True show ?thesis by simp
next
  case False
  obtain e d1 where fh: "readFileHeader (d\<lparr>readHeaderOnce := True\<rparr>) = (e, d1)"
    by (cases "readFileHeader (d\<lparr>readHeaderOnce := True\<rparr>)")
  note f = readFileHeader_fields [OF fh]
  show ?thesis
  proof (cases e)
    case None
    with assms False fh have "ReadEvent_loop d1 = Some (Inr (r, d'))"
      by (simp add: ReadEvent_def)
    from ReadEvent_loop_keeps [OF this] f show ?thesis by auto
  next
    case (Some er)
    with assms False fh have "ReadEvent_loop (d1\<lparr>d_err := Some er\<rparr>) = Some (Inr (r, d'))"
      by (simp add: ReadEvent_def)
    from ReadEvent_loop_keeps [OF this] f show ?thesis by auto
  qed
qed

text \<open>
  C4. With an error recorded (and the file header read, as it is after any call), a
  call returns that error, reads nothing and leaves the demuxer as it is. A call that
  returns an error has recorded it, so every later call returns the same error; and when
  a call leaves an error recorded while returning an event, the next call returns that
  error.
\<close>

theorem error_is_sticky:
  "(d_err d = Some e \<and> readHeaderOnce d \<longrightarrow> ReadEvent d = Some (Inr (Inl e, d))) \<and>
   (ReadEvent d = Some (Inr (Inl e, d')) \<longrightarrow>
      d_err d' = Some e \<and> ReadEvent d' = Some (Inr (Inl e, d'))) \<and>
   (ReadEvent d = Some (Inr (r, d')) \<and> d_err d' = Some e \<longrightarrow>
      ReadEvent d' = Some (Inr (Inl e, d')))"
proof (intro conjI impI)
  assume "d_err d = Some e \<and> readHeaderOnce d"
  then show "ReadEvent d = Some (Inr (Inl e, d))"
    by (simp add: ReadEvent_def ReadEvent_loop_err)
next
  assume a: "ReadEvent d = Some (Inr (Inl e, d'))"
  from ReadEvent_keeps [OF a] show e: "d_err d' = Some e" by simp
  from ReadEvent_keeps [OF a] e show "ReadEvent d' = Some (Inr (Inl e, d'))"
    by (simp add: ReadEvent_def ReadEvent_loop_err)
next
  assume a: "ReadEvent d = Some (Inr (r, d')) \<and> d_err d' = Some e"
  then have "ReadEvent d = Some (Inr (r, d'))" by simp
  from ReadEvent_keeps [OF this] a show "ReadEvent d' = Some (Inr (Inl e, d'))"
    by (simp add: ReadEvent_def ReadEvent_loop_err)
qed

theorem error_is_sticky_witness:
  "ReadEvent (NewDemuxer (Source [0x6E, 0x75, 0x74]))
     = Some (Inr (Inl (ErrFileID ErrUnexpectedEOF),
          \<lparr>d_r = Source [], d_mainHeader = None, d_err = Some (ErrFileID ErrUnexpectedEOF),
            readHeaderOnce = True\<rparr>)) \<and>
   ReadEvent \<lparr>d_r = Source [], d_mainHeader = None, d_err = Some (ErrFileID ErrUnexpectedEOF),
              readHeaderOnce = True\<rparr>
     = Some (Inr (Inl (ErrFileID ErrUnexpectedEOF),
          \<lparr>d_r = Source [], d_mainHeader = None, d_err = Some (ErrFileID ErrUnexpectedEOF),
            readHeaderOnce = True\<rparr>))"
proof -
  let ?d1 = "\<lparr>d_r = Source [], d_mainHeader = None, d_err = Some (ErrFileID ErrUnexpectedEOF),
              readHeaderOnce = True\<rparr>"
  have first: "ReadEvent (NewDemuxer (Source [0x6E, 0x75, 0x74]))
     = Some (Inr (Inl (ErrFileID ErrUnexpectedEOF), ?d1))"
    by code_simp
  note u = error_is_sticky
    [where d = "NewDemuxer (Source [0x6E, 0x75, 0x74])" and e = "ErrFileID ErrUnexpectedEOF"
       and d' = ?d1, THEN conjunct2, THEN conjunct1, rule_format, OF first]
  with first show ?thesis by blast
qed

section \<open>What a packet's decoder consumes of the source\<close>

text \<open>
  \<open>track src N m r\<close>: the packet reader \<open>r\<close> was created on the source \<open>src\<close> with the
  limit \<open>N\<close>, and its reads have so far taken \<open>k\<close> bytes off the source, with
  \<open>m \<le> k \<le> max N 0\<close>; the limited reader's count is \<open>N - k\<close>.
\<close>

definition track :: "byte list \<Rightarrow> int \<Rightarrow> nat \<Rightarrow> reader \<Rightarrow> bool" where
  "track src N m r =
     (case r of
        Source s \<Rightarrow> False
      | Bufio s N' buffered \<Rightarrow>
          length s \<le> length src \<and> s = drop (length src - length s) src \<and>
          m \<le> length src - length s \<and>
          int (length src - length s) \<le> max N 0 \<and>
          N' = N - int (length src - length s))"



lemma track_weaken: "track src N m r \<Longrightarrow> m' \<le> m \<Longrightarrow> track src N m' r"
  by (cases r) (auto simp: track_def)












subsection \<open>The packet's read methods\<close>











subsection \<open>The packet decoders\<close>




















lemma readUvarint_zero_byte:
  assumes "ReadFull r 1 = ([0], None, r')"
  shows "readUvarint r = (0, None, r')"
proof -
  have "readUvarint r = readUvarint_loop (Suc 8) 0 r"
    by (simp add: readUvarint_def)
  also have "\<dots> = (0, None, r')"
    unfolding readUvarint_loop.simps(2) assms by (simp add: Let_def)
  finally show ?thesis .
qed





section \<open>Packets in the stream\<close>

text \<open>
  A unit that starts with \<open>0x4E\<close> is a packet: after the eight bytes of its start code and the
  varint of its size (and the four checksum bytes of a size above 4096), the switch on the
  start code runs on the source left.
\<close>

lemma readUnit_packet:
  assumes e: "d_err d = None" and r: "d_r d = Source ((0x4E # sc) @ rest)"
    and l: "length sc = 7"
    and sz: "readUvarint (Source rest) = (sz, None, Source rest')"
    and c: "sz > 4096 \<longrightarrow> 4 \<le> length rest'"
  shows "readUnit d =
           readPacket (d\<lparr>d_r := Source (if sz > 4096 then drop 4 rest' else rest')\<rparr>)
             \<lparr>code = 0x4E # sc, packetSize = sz,
              checksum = (if sz > 4096 then take 4 rest' else [0, 0, 0, 0])\<rparr>"
proof -
  have one: "ReadFull (d_r d) 1 = ([0x4E], None, Source (sc @ rest))"
    using r by simp
  have seven: "ReadFull (Source (sc @ rest)) 7 = (sc, None, Source rest)"
    using l by (simp add: ReadFull_Source_append)
  have b7: "buffer 7 sc = sc"
    using l by (simp add: buffer_exact)
  have four: "ReadFull (Source rest') 4 = (take 4 rest', None, Source (drop 4 rest'))"
    if "sz > 4096"
    using c that by (auto simp: ReadFull_Source)
  have b4: "buffer 4 (take 4 rest') = take 4 rest'" if "sz > 4096"
    using c that by (simp add: buffer_exact)
  have ph: "readPacketHeader (d\<lparr>d_r := Source (sc @ rest)\<rparr>) =
          ((\<lparr>code = 0x4E # sc, packetSize = sz,
              checksum = (if sz > 4096 then take 4 rest' else [0, 0, 0, 0])\<rparr>, None),
           d\<lparr>d_r := Source (if sz > 4096 then drop 4 rest' else rest')\<rparr>)"
    using e by (simp add: readPacketHeader_def seven b7 sz four b4)
  show ?thesis
    unfolding readUnit_def one by (simp add: ph)
qed

lemma ReadEvent_loop_step:
  "d_err d = None \<Longrightarrow> readUnit d = Some (Inr (Continue d')) \<Longrightarrow>
   ReadEvent_loop d = ReadEvent_loop d'"
  by (subst ReadEvent_loop.simps) simp

lemma ReadEvent_loop_return:
  "d_err d = None \<Longrightarrow> readUnit d = Some (Inr (Return res d')) \<Longrightarrow>
   ReadEvent_loop d = Some (Inr (res, d'))"
  by (subst ReadEvent_loop.simps) simp

lemma readMainHeader_header:
  "readMainHeader p = Some (Inr ((h, e), p')) \<Longrightarrow> p_err p = None \<Longrightarrow> h \<noteq> None"
  by (auto simp: readMainHeader_def case_prod_beta
           split: if_split_asm option.splits sum.splits)

lemma mainStartCode_bytes: "mainStartCode = 0x4E # [0x4D, 0x7A, 0x56, 0x1F, 0x5F, 0x04, 0xAD]"
  by (simp add: mainStartCode_def)

text \<open>
  C8. A main-header packet met while a main header is stored is not decoded: the switch
  stores \<open>ErrSecondMainHeader\<close> in \<open>d.err\<close> and returns it, whatever the packet holds, so
  that \<open>ReadEvent\<close> on a source at a second main-header start code returns that error and
  leaves the stored header as it was. A main-header packet met while none is stored is
  decoded, and the header decoded, which is not nil, is stored. No call of \<open>ReadEvent\<close>
  changes a stored header, and \<open>ErrSecondMainHeader\<close> is none of the other errors.
\<close>

theorem second_main_header_is_an_error:
  "(code header = mainStartCode \<and> d_mainHeader d = Some h \<longrightarrow>
      readPacket d header
        = Some (Inr (Return (Inl ErrSecondMainHeader)
                       (d\<lparr>d_err := Some ErrSecondMainHeader\<rparr>)))) \<and>
   (d_err d = None \<and> readHeaderOnce d \<and> d_mainHeader d = Some h \<and>
    d_r d = Source (mainStartCode @ rest) \<and>
    readUvarint (Source rest) = (sz, None, Source rest') \<and>
    (sz > 4096 \<longrightarrow> 4 \<le> length rest') \<longrightarrow>
      ReadEvent d
        = Some (Inr (Inl ErrSecondMainHeader,
                     d\<lparr>d_r := Source (if sz > 4096 then drop 4 rest' else rest'),
                       d_err := Some ErrSecondMainHeader\<rparr>))) \<and>
   (code header = mainStartCode \<and> d_mainHeader d = None \<and>
    readMainHeader (newRawPacket d header) = Some (Inr ((h', e), p')) \<longrightarrow>
      h' \<noteq> None \<and>
      readPacket d header
        = Some (Inr (Continue (d\<lparr>d_r := Source (underlying (p_r p')),
                                 d_mainHeader := h'\<rparr>)))) \<and>
   (d_err d = None \<and> readHeaderOnce d \<and> d_mainHeader d = None \<and>
    d_r d = Source (mainStartCode @ rest) \<and>
    readUvarint (Source rest) = (sz, None, Source rest') \<and> \<not> sz > 4096 \<and>
    readMainHeader \<lparr>p_r = Bufio rest' (sint sz) [], p_err = None\<rparr>
      = Some (Inr ((h', e), p')) \<longrightarrow>
      h' \<noteq> None \<and>
      ReadEvent d
        = ReadEvent (d\<lparr>d_r := Source (underlying (p_r p')), d_mainHeader := h'\<rparr>)) \<and>
   (ReadEvent d = Some (Inr (res, d')) \<and> d_mainHeader d = Some h \<longrightarrow>
      d_mainHeader d' = Some h) \<and>
   ErrSecondMainHeader \<notin> {EOF, ErrUnexpectedEOF, ErrVarintOverflow} \<and>
   (\<forall>e. ErrSecondMainHeader \<noteq> ErrFileID e) \<and>
   (\<forall>c. ErrSecondMainHeader \<noteq> ErrUnknownStartCode c)"
proof (intro conjI impI allI)
  assume "code header = mainStartCode \<and> d_mainHeader d = Some h"
  then show "readPacket d header
        = Some (Inr (Return (Inl ErrSecondMainHeader)
                       (d\<lparr>d_err := Some ErrSecondMainHeader\<rparr>)))"
    by (simp add: readPacket_def)
next
  assume a: "d_err d = None \<and> readHeaderOnce d \<and> d_mainHeader d = Some h \<and>
    d_r d = Source (mainStartCode @ rest) \<and>
    readUvarint (Source rest) = (sz, None, Source rest') \<and>
    (sz > 4096 \<longrightarrow> 4 \<le> length rest')"
  let ?d1 = "d\<lparr>d_r := Source (if sz > 4096 then drop 4 rest' else rest')\<rparr>"
  let ?hd = "\<lparr>code = mainStartCode, packetSize = sz,
              checksum = (if sz > 4096 then take 4 rest' else [0, 0, 0, 0])\<rparr>"
  from a have e0: "d_err d = None"
    and r0: "d_r d = Source ((0x4E # [0x4D, 0x7A, 0x56, 0x1F, 0x5F, 0x04, 0xAD]) @ rest)"
    and u0: "readUvarint (Source rest) = (sz, None, Source rest')"
    and c0: "sz > 4096 \<longrightarrow> 4 \<le> length rest'"
    by (simp_all add: mainStartCode_bytes)
  have "readUnit d = readPacket ?d1 ?hd"
    unfolding mainStartCode_bytes by (rule readUnit_packet [OF e0 r0 _ u0 c0]) simp
  also from a have "\<dots> = Some (Inr (Return (Inl ErrSecondMainHeader)
                       (?d1\<lparr>d_err := Some ErrSecondMainHeader\<rparr>)))"
    by (simp add: readPacket_def)
  finally have "ReadEvent_loop d
      = Some (Inr (Inl ErrSecondMainHeader, ?d1\<lparr>d_err := Some ErrSecondMainHeader\<rparr>))"
    using a by (intro ReadEvent_loop_return) simp_all
  with a show "ReadEvent d
        = Some (Inr (Inl ErrSecondMainHeader,
                     d\<lparr>d_r := Source (if sz > 4096 then drop 4 rest' else rest'),
                       d_err := Some ErrSecondMainHeader\<rparr>))"
    by (simp add: ReadEvent_def)
next
  assume a: "code header = mainStartCode \<and> d_mainHeader d = None \<and>
    readMainHeader (newRawPacket d header) = Some (Inr ((h', e), p'))"
  then show "h' \<noteq> None"
    by (intro readMainHeader_header [of "newRawPacket d header" h' e p'])
       (simp_all add: newRawPacket_def)
  from a show "readPacket d header
        = Some (Inr (Continue (d\<lparr>d_r := Source (underlying (p_r p')),
                                 d_mainHeader := h'\<rparr>)))"
    by (simp add: readPacket_def afterPacket_def)
next
  assume a: "d_err d = None \<and> readHeaderOnce d \<and> d_mainHeader d = None \<and>
    d_r d = Source (mainStartCode @ rest) \<and>
    readUvarint (Source rest) = (sz, None, Source rest') \<and> \<not> sz > 4096 \<and>
    readMainHeader \<lparr>p_r = Bufio rest' (sint sz) [], p_err = None\<rparr>
      = Some (Inr ((h', e), p'))"
  then show "h' \<noteq> None"
    by (intro readMainHeader_header [of "\<lparr>p_r = Bufio rest' (sint sz) [], p_err = None\<rparr>" h' e p'])
       simp_all
  let ?d1 = "d\<lparr>d_r := Source (if sz > 4096 then drop 4 rest' else rest')\<rparr>"
  let ?hd = "\<lparr>code = mainStartCode, packetSize = sz,
              checksum = (if sz > 4096 then take 4 rest' else [0, 0, 0, 0])\<rparr>"
  let ?d2 = "d\<lparr>d_r := Source (underlying (p_r p')), d_mainHeader := h'\<rparr>"
  from a have e0: "d_err d = None"
    and r0: "d_r d = Source ((0x4E # [0x4D, 0x7A, 0x56, 0x1F, 0x5F, 0x04, 0xAD]) @ rest)"
    and u0: "readUvarint (Source rest) = (sz, None, Source rest')"
    and c0: "sz > 4096 \<longrightarrow> 4 \<le> length rest'"
    by (simp_all add: mainStartCode_bytes)
  have "readUnit d = readPacket ?d1 ?hd"
    unfolding mainStartCode_bytes by (rule readUnit_packet [OF e0 r0 _ u0 c0]) simp
  also from a have "\<dots> = Some (Inr (Continue ?d2))"
    by (simp add: readPacket_def afterPacket_def newRawPacket_def)
  finally have "ReadEvent_loop d = ReadEvent_loop ?d2"
    using a by (intro ReadEvent_loop_step) simp_all
  with a show "ReadEvent d = ReadEvent ?d2"
    by (simp add: ReadEvent_def)
next
  assume a: "ReadEvent d = Some (Inr (res, d')) \<and> d_mainHeader d = Some h"
  then have "ReadEvent d = Some (Inr (res, d'))" by simp
  from ReadEvent_keeps [OF this] a show "d_mainHeader d' = Some h" by simp
next
  show "ErrSecondMainHeader \<notin> {EOF, ErrUnexpectedEOF, ErrVarintOverflow}" by simp
next
  fix e show "ErrSecondMainHeader \<noteq> ErrFileID e" by simp
next
  fix c show "ErrSecondMainHeader \<noteq> ErrUnknownStartCode c" by simp
qed

lemma exampleMainHeader_before:
  fixes rest :: "byte list"
  defines "rest \<equiv> mainStartCode @ [0x00, 0xAA]"
  shows
  "\<exists>F. readMainHeader \<lparr>p_r = Bufio (exampleMainHeader @ rest) 17 [], p_err = None\<rparr> =
               Some (Inr ((Some \<lparr>Version = 3, MinorVersion = 0,
                                   StreamCount = 1, MaxDistance = 0,
                                   TimeBases = [\<lparr>numerator = 1, denominator = 25\<rparr>],
                                   Frames = F, Flags = 0\<rparr>,
                           None), \<lparr>p_r = Bufio rest 0 [], p_err = None\<rparr>)) \<and>
             length F = 256 \<and>
             F ! 0x4E = zeroFrameInfo\<lparr>fi_flags := flagInvalid\<rparr> \<and>
             (\<forall>k. k < 256 \<and> k \<noteq> 0x4E \<longrightarrow>
                  F ! k = runSlot exampleRecord (of_nat (runOffset 0 k)) zeroFrameInfo)"
proof -
  let ?p = "\<lambda>bs. \<lparr>p_r = Bufio rest 0 bs, p_err = None\<rparr>"
  have "\<exists>F. readMainHeader \<lparr>p_r = Bufio (exampleMainHeader @ rest) 17 [], p_err = None\<rparr> =
               Some (Inr ((Some \<lparr>Version = 3, MinorVersion = 0,
                                   StreamCount = 1, MaxDistance = 0,
                                   TimeBases = [\<lparr>numerator = 1, denominator = 25\<rparr>],
                                   Frames = F, Flags = 0\<rparr>,
                           p_err (?p [])), ?p [])) \<and>
             length F = 256 \<and>
             F ! 0x4E = zeroFrameInfo\<lparr>fi_flags := flagInvalid\<rparr> \<and>
             (\<forall>k. k < 256 \<and> k \<noteq> 0x4E \<longrightarrow>
                  F ! k = runSlot exampleRecord (of_nat (runOffset 0 k)) zeroFrameInfo)"
  proof (rule readMainHeader_one_record)
    show "p_err \<lparr>p_r = Bufio (exampleMainHeader @ rest) 17 [], p_err = None\<rparr> = None" by simp
    show "p_readUvarint \<lparr>p_r = Bufio (exampleMainHeader @ rest) 17 [], p_err = None\<rparr>
            = (3, ?p [0x01, 0x00, 0x01, 0x01, 0x19, 0x01, 0x06, 0x00, 0x01, 0x00, 0x00, 0x00,
                      0x81, 0x7F, 0x00, 0x00])"
      unfolding rest_def by code_simp
    show "\<not> 3 < (3 :: uint64)" by simp
    show "p_readUvarint (?p [0x01, 0x00, 0x01, 0x01, 0x19, 0x01, 0x06, 0x00, 0x01, 0x00, 0x00,
                             0x00, 0x81, 0x7F, 0x00, 0x00])
            = (1, ?p [0x00, 0x01, 0x01, 0x19, 0x01, 0x06, 0x00, 0x01, 0x00, 0x00, 0x00,
                      0x81, 0x7F, 0x00, 0x00])"
      unfolding rest_def by code_simp
    show "p_readUvarint (?p [0x00, 0x01, 0x01, 0x19, 0x01, 0x06, 0x00, 0x01, 0x00, 0x00, 0x00,
                             0x81, 0x7F, 0x00, 0x00])
            = (0, ?p [0x01, 0x01, 0x19, 0x01, 0x06, 0x00, 0x01, 0x00, 0x00, 0x00,
                      0x81, 0x7F, 0x00, 0x00])"
      unfolding rest_def by code_simp
    show "p_readUvarint (?p [0x01, 0x01, 0x19, 0x01, 0x06, 0x00, 0x01, 0x00, 0x00, 0x00,
                             0x81, 0x7F, 0x00, 0x00])
            = (1, ?p [0x01, 0x19, 0x01, 0x06, 0x00, 0x01, 0x00, 0x00, 0x00, 0x81, 0x7F,
                      0x00, 0x00])"
      unfolding rest_def by code_simp
    show "makeslice_ok 16 (1 :: uint64)" by code_simp
    show "readTimeBases (unat (1 :: uint64))
            (?p [0x01, 0x19, 0x01, 0x06, 0x00, 0x01, 0x00, 0x00, 0x00, 0x81, 0x7F, 0x00, 0x00])
            = ([\<lparr>numerator = 1, denominator = 25\<rparr>],
               ?p [0x01, 0x06, 0x00, 0x01, 0x00, 0x00, 0x00, 0x81, 0x7F, 0x00, 0x00])"
      unfolding rest_def by code_simp
    show "readTableRecord \<lparr>ts_p = ?p [0x01, 0x06, 0x00, 0x01, 0x00, 0x00, 0x00, 0x81, 0x7F,
                                      0x00, 0x00],
                 ts_pts = 0, ts_mul = 1, ts_stream = 0,
                 ts_match = 1 - push_bit 62 1, ts_headIdx = 0, ts_i = 0, ts_frames = fs\<rparr>
               = (exampleRecord, ?p [0x00, 0x00])" for fs
      unfolding exampleRecord_def rest_def by code_simp
    show "unat (tr_count exampleRecord) = 255" by (simp add: exampleRecord_def)
    show "p_readUvarint (?p [0x00, 0x00]) = (0, ?p [0x00])" by code_simp
    show "skipVarBytes (unat ((0 :: uint64) + 1) - 1) (?p [0x00]) = Inr (?p [0x00])" by simp
    show "p_readUvarint (?p [0x00]) = (0, ?p [])" by code_simp
  qed
  then show ?thesis by simp
qed

theorem second_main_header_is_an_error_witness:
  "\<exists>F. ReadEvent \<lparr>d_r = Source (mainStartCode @ [0x11] @ exampleMainHeader
                                   @ mainStartCode @ [0x00, 0xAA]),
                    d_mainHeader = None, d_err = None, readHeaderOnce = True\<rparr>
         = Some (Inr (Inl ErrSecondMainHeader,
              \<lparr>d_r = Source [0xAA],
               d_mainHeader = Some \<lparr>Version = 3, MinorVersion = 0, StreamCount = 1,
                                     MaxDistance = 0,
                                     TimeBases = [\<lparr>numerator = 1, denominator = 25\<rparr>],
                                     Frames = F, Flags = 0\<rparr>,
               d_err = Some ErrSecondMainHeader, readHeaderOnce = True\<rparr>)) \<and>
        length F = 256"
proof -
  let ?rest2 = "mainStartCode @ [0x00, 0xAA]"
  let ?d0 = "\<lparr>d_r = Source (mainStartCode @ [0x11] @ exampleMainHeader @ ?rest2),
              d_mainHeader = None, d_err = None, readHeaderOnce = True\<rparr>"
  from exampleMainHeader_before obtain F where
    rd: "readMainHeader \<lparr>p_r = Bufio (exampleMainHeader @ ?rest2) 17 [], p_err = None\<rparr> =
               Some (Inr ((Some \<lparr>Version = 3, MinorVersion = 0,
                                   StreamCount = 1, MaxDistance = 0,
                                   TimeBases = [\<lparr>numerator = 1, denominator = 25\<rparr>],
                                   Frames = F, Flags = 0\<rparr>,
                           None), \<lparr>p_r = Bufio ?rest2 0 [], p_err = None\<rparr>))"
    and len: "length F = 256"
    by blast
  let ?H = "\<lparr>Version = 3, MinorVersion = 0, StreamCount = 1, MaxDistance = 0,
             TimeBases = [\<lparr>numerator = 1, denominator = 25\<rparr>], Frames = F, Flags = 0\<rparr>"
  let ?d1 = "\<lparr>d_r = Source ?rest2, d_mainHeader = Some ?H, d_err = None,
              readHeaderOnce = True\<rparr>"
  have sz1: "readUvarint (Source ([0x11] @ exampleMainHeader @ ?rest2))
               = (17, None, Source (exampleMainHeader @ ?rest2))"
    by code_simp
  have pre1: "d_err ?d0 = None \<and> readHeaderOnce ?d0 \<and> d_mainHeader ?d0 = None \<and>
    d_r ?d0 = Source (mainStartCode @ [0x11] @ exampleMainHeader @ ?rest2) \<and>
    readUvarint (Source ([0x11] @ exampleMainHeader @ ?rest2))
      = (17, None, Source (exampleMainHeader @ ?rest2)) \<and> \<not> (17 :: uint64) > 4096 \<and>
    readMainHeader \<lparr>p_r = Bufio (exampleMainHeader @ ?rest2) (sint (17 :: uint64)) [],
                     p_err = None\<rparr>
      = Some (Inr ((Some ?H, None), \<lparr>p_r = Bufio ?rest2 0 [], p_err = None\<rparr>))"
    using sz1 rd by simp
  note first = second_main_header_is_an_error
    [where d = ?d0 and rest = "[0x11] @ exampleMainHeader @ ?rest2" and sz = 17
       and rest' = "exampleMainHeader @ ?rest2" and h' = "Some ?H" and e = None
       and p' = "\<lparr>p_r = Bufio ?rest2 0 [], p_err = None\<rparr>",
     THEN conjunct2, THEN conjunct2, THEN conjunct2, THEN conjunct1, rule_format, OF pre1]
  then have step1: "ReadEvent ?d0 = ReadEvent ?d1"
    by simp
  have sz2: "readUvarint (Source [0x00, 0xAA]) = (0, None, Source [0xAA])"
    by code_simp
  have pre2: "d_err ?d1 = None \<and> readHeaderOnce ?d1 \<and> d_mainHeader ?d1 = Some ?H \<and>
    d_r ?d1 = Source (mainStartCode @ [0x00, 0xAA]) \<and>
    readUvarint (Source [0x00, 0xAA]) = (0, None, Source [0xAA]) \<and>
    ((0 :: uint64) > 4096 \<longrightarrow> 4 \<le> length [0xAA :: byte])"
    using sz2 by simp
  note second = second_main_header_is_an_error
    [where d = ?d1 and h = ?H and rest = "[0x00, 0xAA]" and sz = 0 and rest' = "[0xAA]",
     THEN conjunct2, THEN conjunct1, rule_format, OF pre2]
  then have "ReadEvent ?d1 = Some (Inr (Inl ErrSecondMainHeader,
              \<lparr>d_r = Source [0xAA], d_mainHeader = Some ?H,
               d_err = Some ErrSecondMainHeader, readHeaderOnce = True\<rparr>))"
    by simp
  with step1 len show ?thesis
    by (intro exI [of _ F]) simp
qed

section \<open>A main header whose reads fail\<close>

lemma p_readUvarint_err: "p_err p \<noteq> None \<Longrightarrow> p_readUvarint p = (0, p)"
  by (simp add: p_readUvarint_def)

lemma p_readVarint_err: "p_err p \<noteq> None \<Longrightarrow> p_readVarint p = (0, p)"
  by (simp add: p_readVarint_def)

text \<open>
  With the packet's error set every field of a record reads as 0, so that the record is
  made of the defaults, and its run length is the default multiplier.
\<close>

lemma readTableRecord_err:
  assumes "p_err (ts_p st) \<noteq> None"
  shows "readTableRecord st =
           (\<lparr>tr_flags = 0, tr_stream = ts_stream st, tr_mul = ts_mul st, tr_size = 0,
             tr_pts = ts_pts st, tr_res = 0, tr_match = ts_match st,
             tr_headIdx = ts_headIdx st, tr_count = ts_mul st\<rparr>, ts_p st)"
  using assms by (simp add: readTableRecord_def p_readUvarint_err)

lemma tableStep_err:
  assumes "p_err (ts_p st) \<noteq> None" and "tableStep st = Inr st'"
  shows "ts_p st' = ts_p st \<and> ts_pts st' = ts_pts st \<and> ts_mul st' = ts_mul st \<and>
         ts_stream st' = ts_stream st \<and> ts_match st' = ts_match st \<and>
         ts_headIdx st' = ts_headIdx st"
  using assms(2) unfolding tableStep_def readTableRecord_err [OF assms(1)]
  by (auto split: sum.splits)

lemma tableAfter_err:
  "tableAfter n st = Some st1 \<Longrightarrow> p_err (ts_p st) \<noteq> None \<Longrightarrow>
   ts_p st1 = ts_p st \<and> ts_pts st1 = ts_pts st \<and> ts_mul st1 = ts_mul st \<and>
   ts_stream st1 = ts_stream st \<and> ts_match st1 = ts_match st \<and>
   ts_headIdx st1 = ts_headIdx st"
proof (induction n arbitrary: st)
  case 0
  then show ?case by simp
next
  case (Suc n)
  from Suc.prems(1) obtain s where s: "tableStep st = Inr s"
    and a: "tableAfter n s = Some st1"
    by (auto split: if_splits sum.splits)
  note x = tableStep_err [OF Suc.prems(2) s]
  with Suc.prems(2) have "p_err (ts_p s) \<noteq> None" by simp
  from Suc.IH [OF a this] x show ?case by simp
qed

lemma runEnd_one: "i < 256 \<Longrightarrow> runEnd i (Suc 0) \<le> 256"
  by (simp add: runEnd_def)

lemma runOffset_one: "i \<le> k \<Longrightarrow> k < runEnd i (Suc 0) \<Longrightarrow> k \<noteq> 0x4E \<Longrightarrow> runOffset i k = 0"
  by (auto simp: runEnd_def runOffset_def split: if_splits)

text \<open>
  The table built from a packet in error with the multiplier 1: every record fills one
  slot from the defaults, and the loop returns.
\<close>

lemma tableLoop_err:
  assumes inv: "tableInv st" and err: "p_err (ts_p st) \<noteq> None" and mul: "ts_mul st = 1"
    and i0: "ts_i st = 0"
  shows "\<exists>st'. tableLoop st = Some (Inr st') \<and> ts_p st' = ts_p st \<and>
           length (ts_frames st') = 256 \<and>
           (\<forall>k. k < 256 \<and> k \<noteq> 0x4E \<longrightarrow>
              ts_frames st' ! k
                = runSlot \<lparr>tr_flags = 0, tr_stream = ts_stream st, tr_mul = 1, tr_size = 0,
                           tr_pts = ts_pts st, tr_res = 0, tr_match = ts_match st,
                           tr_headIdx = ts_headIdx st, tr_count = 1\<rparr> 0 (ts_frames st ! k))"
proof -
  let ?rc = "\<lparr>tr_flags = 0, tr_stream = ts_stream st, tr_mul = 1, tr_size = 0,
              tr_pts = ts_pts st, tr_res = 0, tr_match = ts_match st,
              tr_headIdx = ts_headIdx st, tr_count = 1\<rparr>"
  have rec: "readTableRecord st1 = (?rc, ts_p st)" if "tableAfter n st = Some st1" for n st1
  proof -
    note x = tableAfter_err [OF that err]
    with err have "p_err (ts_p st1) \<noteq> None" by simp
    from readTableRecord_err [OF this] x mul show ?thesis by simp
  qed
  have ok: "\<forall>n st1. tableAfter n st = Some st1 \<and> ts_i st1 < 256 \<longrightarrow>
               0 < tr_count (fst (readTableRecord st1)) \<and>
               runEnd (ts_i st1) (unat (tr_count (fst (readTableRecord st1)))) \<le> 256"
    by (auto simp: rec runEnd_one)
  from tableLoop_returns_total [OF inv ok] obtain st' where
    tl: "tableLoop st = Some (Inr st')"
    by blast
  then obtain N where N: "tableAfter N st = Some st'"
    by (auto simp: tableLoop_returns)
  note t = tableLoop_table [OF tl inv]
  have slot: "ts_frames st' ! k = runSlot ?rc 0 (ts_frames st ! k)"
    if k: "k < 256 \<and> k \<noteq> 0x4E" for k
  proof -
    from t k i0 obtain n st1 where a: "tableAfter n st = Some st1" and i: "ts_i st1 < 256"
      and k1: "ts_i st1 \<le> k"
      and k2: "k < runEnd (ts_i st1) (unat (tr_count (fst (readTableRecord st1))))"
      by auto
    from k2 have k3: "k < runEnd (ts_i st1) (Suc 0)" by (simp add: rec [OF a])
    from t a i k1 k2 k
    have "ts_frames st' ! k
            = runSlot (fst (readTableRecord st1)) (of_nat (runOffset (ts_i st1) k))
                (ts_frames st ! k)"
      by blast
    then show ?thesis
      using k by (simp add: rec [OF a] runOffset_one [OF k1 k3])
  qed
  from tableAfter_err [OF N err] have "ts_p st' = ts_p st" by simp
  with tl t slot show ?thesis by blast
qed

text \<open>The record made of the defaults the table loop starts with.\<close>

definition defaultRecord :: tableRecord where
  "defaultRecord = \<lparr>tr_flags = 0, tr_stream = 0, tr_mul = 1, tr_size = 0, tr_pts = 0,
     tr_res = 0, tr_match = 1 - push_bit 62 1, tr_headIdx = 0, tr_count = 1\<rparr>"

definition emptyPacketHeader :: "frameInfo list \<Rightarrow> mainHeader" where
  "emptyPacketHeader F = \<lparr>Version = 0, MinorVersion = 0, StreamCount = 0, MaxDistance = 0,
     TimeBases = [], Frames = F, Flags = 0\<rparr>"

definition defaultFrame :: frame where
  "defaultFrame = \<lparr>f_streamID = 0, f_codedPTS = 0, f_dataSizeMsb = 0,
     f_matchTimeDelta = 1 - push_bit 62 1, f_headerIdx = 0, f_res = 0, f_data = [],
     f_dataAccessed = False\<rparr>"

lemma ReadFull_exhausted:
  "ReadFull (Bufio src 0 []) 1 = ([], Some EOF, Bufio src 0 [])"
  unfolding ReadFull_def
  by (subst ReadAtLeast.simps) (simp add: LimitedReader_Read_def defaultBufSize_def)

lemma readUvarint_exhausted:
  "readUvarint (Bufio src 0 []) = (0, Some EOF, Bufio src 0 [])"
proof -
  have "readUvarint (Bufio src 0 []) = readUvarint_loop (Suc 8) 0 (Bufio src 0 [])"
    by (simp add: readUvarint_def)
  also have "\<dots> = (0, Some EOF, Bufio src 0 [])"
    unfolding readUvarint_loop.simps(2) ReadFull_exhausted by simp
  finally show ?thesis .
qed

text \<open>
  A main-header packet of size 0: the first read fails, every later one returns 0, and the
  decoder returns a header with a table of default entries, together with the error.
\<close>

lemma readMainHeader_empty_packet:
  "\<exists>F. readMainHeader \<lparr>p_r = Bufio src 0 [], p_err = None\<rparr>
          = Some (Inr ((Some (emptyPacketHeader F), Some EOF),
                       \<lparr>p_r = Bufio src 0 [], p_err = Some EOF\<rparr>)) \<and>
        length F = 256 \<and>
        (\<forall>k. k < 256 \<and> k \<noteq> 0x4E \<longrightarrow> F ! k = runSlot defaultRecord 0 zeroFrameInfo)"
proof -
  let ?p0 = "\<lparr>p_r = Bufio src 0 [], p_err = None\<rparr>"
  let ?pE = "\<lparr>p_r = Bufio src 0 [], p_err = Some EOF\<rparr>"
  let ?st = "\<lparr>ts_p = ?pE, ts_pts = 0, ts_mul = 1, ts_stream = 0,
              ts_match = 1 - push_bit 62 1, ts_headIdx = 0, ts_i = 0,
              ts_frames = replicate 256 zeroFrameInfo\<rparr>"
  have first: "p_readUvarint ?p0 = (0, ?pE)"
    by (simp add: p_readUvarint_def readUvarint_exhausted)
  have later: "p_readUvarint ?pE = (0, ?pE)"
    by (simp add: p_readUvarint_err)
  have "tableInv ?st" by (simp add: tableInv_def)
  from tableLoop_err [OF this] obtain st' where
    tl: "tableLoop ?st = Some (Inr st')" and p: "ts_p st' = ?pE"
    and len: "length (ts_frames st') = 256"
    and slots: "\<forall>k. k < 256 \<and> k \<noteq> 0x4E \<longrightarrow>
              ts_frames st' ! k = runSlot defaultRecord 0 zeroFrameInfo"
    by (auto simp: defaultRecord_def)
  have ok: "makeslice_ok 16 (0 :: uint64)"
    by (simp add: makeslice_ok_def maxAlloc_def)
  have m: "(1 - push_bit 62 1 :: int64) = - 4611686018427387903"
    by simp
  have "readMainHeader ?p0
          = Some (Inr ((Some (emptyPacketHeader (ts_frames st')), Some EOF), ?pE))"
    by (simp add: readMainHeader_def first later ok tl [unfolded m] p emptyPacketHeader_def)
  with len slots show ?thesis by blast
qed

text \<open>A frame whose table entry is a default entry has no field and no payload.\<close>

lemma ReadFull_nothing: "ReadFull r 0 = ([], None, r)"
  unfolding ReadFull_def by (subst ReadAtLeast.simps) simp

lemma readFrame_default_slot:
  assumes "d_err d = None" and "unat c < length (Frames mh)"
    and "Frames mh ! unat c = runSlot defaultRecord 0 zeroFrameInfo"
  shows "readFrame c (Some mh) d = Inr (Inr defaultFrame, d)"
  using assms(1,2)
  by (simp add: readFrame_def assms(3) runSlot_def defaultRecord_def zeroFrameInfo_def
        flagCoded_def flagStreamID_def flagCodedPts_def flagSizeMSB_def flagMatchTime_def
        flagHeaderIdx_def flagReserved_def flagChecksum_def ReadFull_nothing
        makeslice_ok_def maxAlloc_def buffer_def defaultFrame_def)

lemma unat_byte_less: "unat (c :: byte) < 256"
  using unsigned_less [of c, where 'a = nat] by simp

lemma unat_byte_marker: "(c :: byte) \<noteq> 0x4E \<Longrightarrow> unat c \<noteq> 0x4E"
  by (simp add: word_unat_eq_iff)

lemma Demuxer_update_swap:
  "d\<lparr>d_mainHeader := h, d_r := r\<rparr> = (d\<lparr>d_r := r, d_mainHeader := h\<rparr> :: Demuxer)"
  by simp

lemma readUnit_frame:
  assumes "d_r d = Source (b # rest)" and "b \<noteq> 0x4E"
    and "readFrame b (d_mainHeader d) (d\<lparr>d_r := Source rest\<rparr>) = Inr (Inr f, d')"
  shows "readUnit d = Some (Inr (Return (Inr (EvFrame f)) d'))"
  using assms by (simp add: readUnit_def)

text \<open>
  C2. The error that \<open>readMainHeader\<close> returns is assigned in the switch and never tested:
  whatever it is, the header returned with it is stored, \<open>d.err\<close> stays nil and the loop goes
  on with the next unit. So a main-header packet of size 0, in which every read fails with
  \<open>io.EOF\<close>, gives a stored header whose table has a default entry for every frame code, and
  a byte other than \<open>0x4E\<close> after it is returned as a frame, with no error.
\<close>

theorem main_header_read_failure_is_not_reported:
  "(code header = mainStartCode \<and> d_mainHeader d = None \<and>
    readMainHeader (newRawPacket d header) = Some (Inr ((h, Some e), p')) \<longrightarrow>
      readPacket d header
        = Some (Inr (Continue (d\<lparr>d_r := Source (underlying (p_r p')),
                                 d_mainHeader := h\<rparr>)))) \<and>
   (d_err d = None \<and> readHeaderOnce d \<and> d_mainHeader d = None \<and>
    d_r d = Source (mainStartCode @ 0x00 # b # rest) \<and> b \<noteq> 0x4E \<longrightarrow>
      (\<exists>F. readMainHeader \<lparr>p_r = Bufio (b # rest) 0 [], p_err = None\<rparr>
              = Some (Inr ((Some (emptyPacketHeader F), Some EOF),
                           \<lparr>p_r = Bufio (b # rest) 0 [], p_err = Some EOF\<rparr>)) \<and>
            ReadEvent d
              = Some (Inr (Inr (EvFrame defaultFrame),
                           d\<lparr>d_r := Source rest,
                             d_mainHeader := Some (emptyPacketHeader F)\<rparr>)))) \<and>
   (b \<noteq> 0x4E \<longrightarrow>
      (\<exists>F. ReadEvent (NewDemuxer (Source (fileID @ mainStartCode @ 0x00 # b # rest)))
              = Some (Inr (Inr (EvFrame defaultFrame),
                           \<lparr>d_r = Source rest, d_mainHeader = Some (emptyPacketHeader F),
                            d_err = None, readHeaderOnce = True\<rparr>))))"
proof -
  have packet: "readPacket d header
        = Some (Inr (Continue (d\<lparr>d_r := Source (underlying (p_r p')),
                                 d_mainHeader := h\<rparr>)))"
    if "code header = mainStartCode \<and> d_mainHeader d = None \<and>
        readMainHeader (newRawPacket d header) = Some (Inr ((h, Some e), p'))"
    for d header h e p'
    using that by (simp add: readPacket_def afterPacket_def)
  have event: "\<exists>F. readMainHeader \<lparr>p_r = Bufio (b # rest) 0 [], p_err = None\<rparr>
              = Some (Inr ((Some (emptyPacketHeader F), Some EOF),
                           \<lparr>p_r = Bufio (b # rest) 0 [], p_err = Some EOF\<rparr>)) \<and>
            ReadEvent d
              = Some (Inr (Inr (EvFrame defaultFrame),
                           d\<lparr>d_r := Source rest,
                             d_mainHeader := Some (emptyPacketHeader F)\<rparr>))"
    if a: "d_err d = None \<and> readHeaderOnce d \<and> d_mainHeader d = None \<and>
           d_r d = Source (mainStartCode @ 0x00 # b # rest) \<and> b \<noteq> 0x4E"
    for d :: Demuxer
  proof -
    from a have e0: "d_err d = None" and once: "readHeaderOnce d"
      and h0: "d_mainHeader d = None" and b: "b \<noteq> 0x4E"
      and r0: "d_r d = Source ((0x4E # [0x4D, 0x7A, 0x56, 0x1F, 0x5F, 0x04, 0xAD])
                                @ 0x00 # b # rest)"
      by (simp_all add: mainStartCode_bytes)
    from readMainHeader_empty_packet [of "b # rest"] obtain F where
      rd: "readMainHeader \<lparr>p_r = Bufio (b # rest) 0 [], p_err = None\<rparr>
            = Some (Inr ((Some (emptyPacketHeader F), Some EOF),
                         \<lparr>p_r = Bufio (b # rest) 0 [], p_err = Some EOF\<rparr>))"
      and len: "length F = 256"
      and slots: "\<forall>k. k < 256 \<and> k \<noteq> 0x4E \<longrightarrow> F ! k = runSlot defaultRecord 0 zeroFrameInfo"
      by blast
    let ?H = "emptyPacketHeader F"
    let ?hd = "\<lparr>code = mainStartCode, packetSize = 0, checksum = [0, 0, 0, 0]\<rparr>"
    let ?d0 = "d\<lparr>d_r := Source (b # rest)\<rparr>"
    let ?d1 = "d\<lparr>d_r := Source (b # rest), d_mainHeader := Some ?H\<rparr>"
    let ?d2 = "d\<lparr>d_mainHeader := Some ?H, d_r := Source rest\<rparr>"
    have sz: "readUvarint (Source (0x00 # b # rest)) = (0, None, Source (b # rest))"
      by (rule readUvarint_zero_byte) simp
    have "readUnit d = readPacket ?d0 ?hd"
      using readUnit_packet [OF e0 r0 _ sz] by (simp add: mainStartCode_bytes)
    also have "\<dots> = Some (Inr (Continue ?d1))"
      using packet [of ?hd ?d0 "Some ?H" EOF "\<lparr>p_r = Bufio (b # rest) 0 [], p_err = Some EOF\<rparr>"]
        h0 rd
      by (simp add: newRawPacket_def)
    finally have s1: "ReadEvent_loop d = ReadEvent_loop ?d1"
      using e0 by (intro ReadEvent_loop_step)
    have "unat b < length (Frames ?H)"
      using len unat_byte_less [of b] by (simp add: emptyPacketHeader_def)
    moreover have "Frames ?H ! unat b = runSlot defaultRecord 0 zeroFrameInfo"
      using slots unat_byte_less [of b] unat_byte_marker [OF b]
      by (simp add: emptyPacketHeader_def)
    ultimately have "readFrame b (Some ?H) ?d2 = Inr (Inr defaultFrame, ?d2)"
      using e0 by (intro readFrame_default_slot) simp_all
    then have "readUnit ?d1 = Some (Inr (Return (Inr (EvFrame defaultFrame)) ?d2))"
      using b by (intro readUnit_frame [where rest = rest]) simp_all
    then have "ReadEvent_loop ?d1 = Some (Inr (Inr (EvFrame defaultFrame), ?d2))"
      using e0 by (intro ReadEvent_loop_return) simp_all
    with s1 once have "ReadEvent d = Some (Inr (Inr (EvFrame defaultFrame), ?d2))"
      by (simp add: ReadEvent_def)
    then have "ReadEvent d
              = Some (Inr (Inr (EvFrame defaultFrame),
                           d\<lparr>d_r := Source rest, d_mainHeader := Some ?H\<rparr>))"
      by (simp only: Demuxer_update_swap)
    with rd show ?thesis by blast
  qed
  have fresh: "\<exists>F. ReadEvent (NewDemuxer (Source (fileID @ mainStartCode @ 0x00 # b # rest)))
              = Some (Inr (Inr (EvFrame defaultFrame),
                           \<lparr>d_r = Source rest, d_mainHeader = Some (emptyPacketHeader F),
                            d_err = None, readHeaderOnce = True\<rparr>))"
    if b: "b \<noteq> 0x4E"
  proof -
    let ?d = "\<lparr>d_r = Source (mainStartCode @ 0x00 # b # rest), d_mainHeader = None,
               d_err = None, readHeaderOnce = True\<rparr>"
    have "readFileHeader (NewDemuxer (Source (fileID @ mainStartCode @ 0x00 # b # rest))
                            \<lparr>readHeaderOnce := True\<rparr>)
            = (None, ?d)"
      using readFileHeader_Source
        [of fileID "NewDemuxer (Source (fileID @ mainStartCode @ 0x00 # b # rest))
                      \<lparr>readHeaderOnce := True\<rparr>" "mainStartCode @ 0x00 # b # rest"]
      by (simp add: NewDemuxer_def)
    then have "ReadEvent (NewDemuxer (Source (fileID @ mainStartCode @ 0x00 # b # rest)))
                 = ReadEvent_loop ?d"
      by (simp add: ReadEvent_def NewDemuxer_def)
    also have "\<dots> = ReadEvent ?d"
      by (simp add: ReadEvent_def)
    finally show ?thesis
      using event [of ?d] b by auto
  qed
  from packet event fresh show ?thesis by blast
qed

theorem main_header_read_failure_is_not_reported_witness:
  "\<exists>F. readMainHeader \<lparr>p_r = Bufio [0x00] 0 [], p_err = None\<rparr>
          = Some (Inr ((Some (emptyPacketHeader F), Some EOF),
                       \<lparr>p_r = Bufio [0x00] 0 [], p_err = Some EOF\<rparr>)) \<and>
        ReadEvent \<lparr>d_r = Source (mainStartCode @ [0x00, 0x00]), d_mainHeader = None,
                   d_err = None, readHeaderOnce = True\<rparr>
          = Some (Inr (Inr (EvFrame defaultFrame),
                       \<lparr>d_r = Source [], d_mainHeader = Some (emptyPacketHeader F),
                        d_err = None, readHeaderOnce = True\<rparr>))"
proof -
  let ?d = "\<lparr>d_r = Source (mainStartCode @ [0x00, 0x00]), d_mainHeader = None,
             d_err = None, readHeaderOnce = True\<rparr>"
  have pre: "d_err ?d = None \<and> readHeaderOnce ?d \<and> d_mainHeader ?d = None \<and>
    d_r ?d = Source (mainStartCode @ 0x00 # 0x00 # []) \<and> (0x00 :: byte) \<noteq> 0x4E"
    by simp
  note u = main_header_read_failure_is_not_reported
    [where d = ?d and b = 0 and rest = "[]",
     THEN conjunct2, THEN conjunct1, rule_format, OF pre]
  then show ?thesis by simp
qed

section \<open>Side data\<close>








section \<open>The layout of a frame\<close>

text \<open>
  \<open>uvarintBytes bs x\<close>: the bytes \<open>bs\<close> are one unsigned varint, of value \<open>x\<close>, that is
  \<open>readUvarint\<close> reads all of them and returns \<open>x\<close>; \<open>varintBytes\<close> likewise for the signed
  varint.
\<close>

definition uvarintBytes :: "byte list \<Rightarrow> uint64 \<Rightarrow> bool" where
  "uvarintBytes bs x = (readUvarint (Source bs) = (x, None, Source []))"

definition varintBytes :: "byte list \<Rightarrow> int64 \<Rightarrow> bool" where
  "varintBytes bs i = (readVarint (Source bs) = (i, None, Source []))"

lemma readUvarint_bytes:
  "uvarintBytes bs x \<Longrightarrow> readUvarint (Source (bs @ rest)) = (x, None, Source rest)"
  unfolding uvarintBytes_def readUvarint_def by (rule readUvarint_loop_append)

lemma readVarint_bytes:
  assumes "varintBytes bs i"
  shows "readVarint (Source (bs @ rest)) = (i, None, Source rest)"
proof -
  obtain u e r where u: "readUvarint (Source bs) = (u, e, r)"
    by (cases "readUvarint (Source bs)")
  from assms have v: "readVarint (Source bs) = (i, None, Source [])"
    by (simp add: varintBytes_def)
  from v u have e: "e = None" and r: "r = Source []"
    by (auto simp: readVarint_def Let_def split: option.splits if_splits)
  from u e r have "uvarintBytes bs u"
    by (simp add: uvarintBytes_def)
  from readUvarint_bytes [OF this, of rest] v u e r show ?thesis
    by (auto simp: readVarint_def Let_def split: if_splits)
qed

lemma d_readUvarint_bytes:
  assumes "d_err d = None" and "d_r d = Source (bs @ rest)" and "uvarintBytes bs x"
  shows "d_readUvarint d = (x, d\<lparr>d_r := Source rest\<rparr>)"
  using assms(1,2) readUvarint_bytes [OF assms(3), of rest]
  by (simp add: d_readUvarint_def)

lemma d_readVarint_bytes:
  assumes "d_err d = None" and "d_r d = Source (bs @ rest)" and "varintBytes bs i"
  shows "d_readVarint d = (i, d\<lparr>d_r := Source rest\<rparr>)"
  using assms(1,2) readVarint_bytes [OF assms(3), of rest]
  by (simp add: d_readVarint_def)

text \<open>A field that is read only when its flag is set.\<close>

lemma opt_d_readUvarint_bytes:
  assumes "d_err d = None" and "d_r d = Source ((if g then bs else []) @ rest)"
    and "g \<longrightarrow> uvarintBytes bs x"
  shows "(if g then d_readUvarint d else (dflt, d))
           = ((if g then x else dflt), d\<lparr>d_r := Source rest\<rparr>)"
proof (cases g)
  case True
  with assms show ?thesis
    by (simp add: d_readUvarint_bytes [of d bs rest x])
next
  case False
  with assms(2) have "d\<lparr>d_r := Source rest\<rparr> = d" by simp
  with False show ?thesis by simp
qed

lemma opt_d_readVarint_bytes:
  assumes "d_err d = None" and "d_r d = Source ((if g then bs else []) @ rest)"
    and "g \<longrightarrow> varintBytes bs i"
  shows "(if g then d_readVarint d else (dflt, d))
           = ((if g then i else dflt), d\<lparr>d_r := Source rest\<rparr>)"
proof (cases g)
  case True
  with assms show ?thesis
    by (simp add: d_readVarint_bytes [of d bs rest i])
next
  case False
  with assms(2) have "d\<lparr>d_r := Source rest\<rparr> = d" by simp
  with False show ?thesis by simp
qed

lemma d_skipUvarints_bytes:
  "d_err d = None \<Longrightarrow> d_r d = Source (concat fs @ rest) \<Longrightarrow>
   \<forall>f \<in> set fs. \<exists>x. uvarintBytes f x \<Longrightarrow>
   d_skipUvarints (length fs) d = d\<lparr>d_r := Source rest\<rparr>"
proof (induction fs arbitrary: d)
  case Nil
  then show ?case by simp
next
  case (Cons f fs)
  from Cons.prems(3) obtain x where x: "uvarintBytes f x" by auto
  from Cons.prems(2) have r: "d_r d = Source (f @ concat fs @ rest)" by simp
  have s: "d_readUvarint d = (x, d\<lparr>d_r := Source (concat fs @ rest)\<rparr>)"
    by (rule d_readUvarint_bytes [OF Cons.prems(1) r x])
  have "d_skipUvarints (length fs) (d\<lparr>d_r := Source (concat fs @ rest)\<rparr>)
          = d\<lparr>d_r := Source (concat fs @ rest)\<rparr>\<lparr>d_r := Source rest\<rparr>"
    using Cons.prems by (intro Cons.IH) simp_all
  with s show ?case by simp
qed

text \<open>
  C5. The bytes of a frame after its code, for the table entry \<open>meta\<close> of the code: the
  coded flags, when the entry has the coded-flags bit, which are XORed into the entry's
  flags; then, each present only when its bit is set in the resulting flags, and in this
  order, the stream id, the coded PTS, the size MSB, the match-time delta (a signed varint),
  the header index, the count of reserved fields followed by that many varints, and four
  checksum bytes; then the payload. From a source that holds these bytes \<open>readFrame\<close>
  returns the frame with the values encoded, the table's defaults for the stream id, the
  match-time delta and the header index that are absent, and as payload the
  \<open>lsb + mul * sizeMSB\<close> bytes (\<open>lsb\<close> without a size MSB) that follow, and leaves the source
  right after them. With fewer bytes than that left it returns and stores a read error,
  and a size that \<open>make\<close> refuses is a panic.
\<close>

theorem frame_fields_in_order:
  fixes d :: Demuxer and mh :: mainHeader and c :: byte
    and mt :: int64 and cf sid pts msb hidx res :: uint64
    and bFlags bStream bPts bMsb bMatch bHidx bRes csum payload rest tail :: "byte list"
    and reserved :: "byte list list"
  defines "meta \<equiv> Frames mh ! unat c"
  defines "flags \<equiv> (if fi_flags meta AND flagCoded > 0 then fi_flags meta XOR cf
                      else fi_flags meta)"
  defines "size' \<equiv> (if flags AND flagSizeMSB > 0 then fi_lsb meta + fi_mul meta * msb
                      else fi_lsb meta)"
  assumes err: "d_err d = None" and code: "unat c < length (Frames mh)"
    and eFlags: "fi_flags meta AND flagCoded > 0 \<longrightarrow> uvarintBytes bFlags cf"
    and eStream: "flags AND flagStreamID > 0 \<longrightarrow> uvarintBytes bStream sid"
    and ePts: "flags AND flagCodedPts > 0 \<longrightarrow> uvarintBytes bPts pts"
    and eMsb: "flags AND flagSizeMSB > 0 \<longrightarrow> uvarintBytes bMsb msb"
    and eMatch: "flags AND flagMatchTime > 0 \<longrightarrow> varintBytes bMatch mt"
    and eHidx: "flags AND flagHeaderIdx > 0 \<longrightarrow> uvarintBytes bHidx hidx"
    and eRes: "flags AND flagReserved > 0 \<longrightarrow>
                 uvarintBytes bRes res \<and> length reserved = unat res \<and>
                 (\<forall>f \<in> set reserved. \<exists>x. uvarintBytes f x)"
    and eSum: "flags AND flagChecksum > 0 \<longrightarrow> length csum = 4"
    and src: "d_r d = Source (
          (if fi_flags meta AND flagCoded > 0 then bFlags else []) @
          (if flags AND flagStreamID > 0 then bStream else []) @
          (if flags AND flagCodedPts > 0 then bPts else []) @
          (if flags AND flagSizeMSB > 0 then bMsb else []) @
          (if flags AND flagMatchTime > 0 then bMatch else []) @
          (if flags AND flagHeaderIdx > 0 then bHidx else []) @
          (if flags AND flagReserved > 0 then bRes @ concat reserved else []) @
          (if flags AND flagChecksum > 0 then csum else []) @
          tail)"
  shows "(makeslice_ok 1 size' \<and> tail = payload @ rest \<and> length payload = unat size' \<longrightarrow>
            readFrame c (Some mh) d =
              Inr (Inr \<lparr>f_streamID = (if flags AND flagStreamID > 0 then sid
                                       else fi_streamID meta),
                         f_codedPTS = (if flags AND flagCodedPts > 0 then pts else 0),
                         f_dataSizeMsb = (if flags AND flagSizeMSB > 0 then msb else 0),
                         f_matchTimeDelta = (if flags AND flagMatchTime > 0 then mt
                                             else fi_matchTimeDelta meta),
                         f_headerIdx = (if flags AND flagHeaderIdx > 0 then hidx
                                        else fi_headerIdx meta),
                         f_res = (if flags AND flagReserved > 0 then res else 0),
                         f_data = payload, f_dataAccessed = False\<rparr>,
                   d\<lparr>d_r := Source rest\<rparr>)) \<and>
         (makeslice_ok 1 size' \<and> length tail < unat size' \<longrightarrow>
            readFrame c (Some mh) d =
              Inr (Inl (if tail = [] then EOF else ErrUnexpectedEOF),
                   d\<lparr>d_r := Source [],
                     d_err := Some (if tail = [] then EOF else ErrUnexpectedEOF)\<rparr>)) \<and>
         (\<not> makeslice_ok 1 size' \<longrightarrow>
            readFrame c (Some mh) d = Inl MakesliceLenOutOfRange)"
proof -
  let ?g0 = "fi_flags meta AND flagCoded > 0"
  let ?gS = "flags AND flagStreamID > 0"
  let ?gP = "flags AND flagCodedPts > 0"
  let ?gZ = "flags AND flagSizeMSB > 0"
  let ?gM = "flags AND flagMatchTime > 0"
  let ?gH = "flags AND flagHeaderIdx > 0"
  let ?gR = "flags AND flagReserved > 0"
  let ?gC = "flags AND flagChecksum > 0"
  let ?R8 = "tail"
  let ?R7 = "(if ?gC then csum else []) @ ?R8"
  let ?R6b = "(if ?gR then concat reserved else []) @ ?R7"
  let ?R6 = "(if ?gR then bRes else []) @ ?R6b"
  let ?R5 = "(if ?gH then bHidx else []) @ ?R6"
  let ?R4 = "(if ?gM then bMatch else []) @ ?R5"
  let ?R3 = "(if ?gZ then bMsb else []) @ ?R4"
  let ?R2 = "(if ?gP then bPts else []) @ ?R3"
  let ?R1 = "(if ?gS then bStream else []) @ ?R2"
  let ?D = "\<lambda>bs. d\<lparr>d_r := Source bs\<rparr>"
  have src': "d_r d = Source ((if ?g0 then bFlags else []) @ ?R1)"
    using src by simp
  have s0: "(if ?g0
             then (case d_readUvarint d of (codedFlags, d) \<Rightarrow> (fi_flags meta XOR codedFlags, d))
             else (fi_flags meta, d)) = (flags, ?D ?R1)"
  proof (cases ?g0)
    case True
    with eFlags src' have "d_readUvarint d = (cf, ?D ?R1)"
      by (intro d_readUvarint_bytes [OF err]) simp_all
    with True show ?thesis by (simp add: flags_def)
  next
    case False
    with src' have "?D ?R1 = d" by simp
    with False show ?thesis by (simp add: flags_def)
  qed
  have e: "d_err (?D bs) = None" for bs
    using err by simp
  have sS: "(if ?gS then d_readUvarint (?D ?R1) else (fi_streamID meta, ?D ?R1))
              = ((if ?gS then sid else fi_streamID meta), ?D ?R2)"
    using opt_d_readUvarint_bytes [OF e [of ?R1] _ eStream, of ?R2 "fi_streamID meta"]
    by simp
  have sP: "(if ?gP then d_readUvarint (?D ?R2) else (0, ?D ?R2))
              = ((if ?gP then pts else 0), ?D ?R3)"
    using opt_d_readUvarint_bytes [OF e [of ?R2] _ ePts, of ?R3 0]
    by simp
  have sZ: "(if ?gZ then d_readUvarint (?D ?R3) else (0, ?D ?R3))
              = ((if ?gZ then msb else 0), ?D ?R4)"
    using opt_d_readUvarint_bytes [OF e [of ?R3] _ eMsb, of ?R4 0]
    by simp
  have sz: "size' = (if ?gZ then fi_lsb meta + fi_mul meta * (if ?gZ then msb else 0)
                     else fi_lsb meta)"
    by (simp add: size'_def)
  have sM: "(if ?gM then d_readVarint (?D ?R4) else (fi_matchTimeDelta meta, ?D ?R4))
              = ((if ?gM then mt else fi_matchTimeDelta meta), ?D ?R5)"
    using opt_d_readVarint_bytes [OF e [of ?R4] _ eMatch, of ?R5 "fi_matchTimeDelta meta"]
    by simp
  have sH: "(if ?gH then d_readUvarint (?D ?R5) else (fi_headerIdx meta, ?D ?R5))
              = ((if ?gH then hidx else fi_headerIdx meta), ?D ?R6)"
    using opt_d_readUvarint_bytes [OF e [of ?R5] _ eHidx, of ?R6 "fi_headerIdx meta"]
    by simp
  have eRes': "?gR \<longrightarrow> uvarintBytes bRes res"
    using eRes by simp
  have sR: "(if ?gR then d_readUvarint (?D ?R6) else (0, ?D ?R6))
              = ((if ?gR then res else 0), ?D ?R6b)"
    using opt_d_readUvarint_bytes [OF e [of ?R6] _ eRes', of ?R6b 0]
    by simp
  have sK: "?D ?R7 = d_skipUvarints (unat (if ?gR then res else 0)) (?D ?R6b)"
  proof (cases ?gR)
    case True
    with eRes have len: "length reserved = unat res"
      and all: "\<forall>f \<in> set reserved. \<exists>x. uvarintBytes f x"
      by simp_all
    have "d_skipUvarints (length reserved) (?D (concat reserved @ ?R7))
            = (?D (concat reserved @ ?R7))\<lparr>d_r := Source ?R7\<rparr>"
      using all by (intro d_skipUvarints_bytes e) simp_all
    with True len show ?thesis by simp
  next
    case False
    then show ?thesis by simp
  qed
  note unfolded = readFrame_unfold
    [OF err code meta_def [THEN meta_eq_to_obj_eq] s0 sS sP sZ sz sM sH sR sK]
  have sum: "(if ?gC then ReadFull (d_r (?D ?R7)) 4 else ([], None, d_r (?D ?R7)))
               = ((if ?gC then csum else []), None, Source tail)"
    using eSum by (simp add: ReadFull_Source_append)
  have key: "readFrame c (Some mh) d =
     (if \<not> makeslice_ok 1 size' then Inl MakesliceLenOutOfRange
      else
        (case ReadFull (Source tail) (unat size') of
           (got, Some e, r2) \<Rightarrow> Inr (Inl e, (?D ?R7)\<lparr>d_r := r2, d_err := Some e\<rparr>)
         | (got, None, r2) \<Rightarrow>
             Inr (Inr \<lparr>f_streamID = (if ?gS then sid else fi_streamID meta),
                        f_codedPTS = (if ?gP then pts else 0),
                        f_dataSizeMsb = (if ?gZ then msb else 0),
                        f_matchTimeDelta = (if ?gM then mt else fi_matchTimeDelta meta),
                        f_headerIdx = (if ?gH then hidx else fi_headerIdx meta),
                        f_res = (if ?gR then res else 0),
                        f_data = buffer (unat size') got, f_dataAccessed = False\<rparr>,
                  (?D ?R7)\<lparr>d_r := r2\<rparr>)))"
    unfolding unfolded sum by (simp only: prod.case option.case)
  show ?thesis
  proof (intro conjI impI)
    assume a: "makeslice_ok 1 size' \<and> tail = payload @ rest \<and> length payload = unat size'"
    then have "ReadFull (Source tail) (unat size') = (payload, None, Source rest)"
      by (simp add: ReadFull_Source_append)
    with a show "readFrame c (Some mh) d =
              Inr (Inr \<lparr>f_streamID = (if ?gS then sid else fi_streamID meta),
                         f_codedPTS = (if ?gP then pts else 0),
                         f_dataSizeMsb = (if ?gZ then msb else 0),
                         f_matchTimeDelta = (if ?gM then mt else fi_matchTimeDelta meta),
                         f_headerIdx = (if ?gH then hidx else fi_headerIdx meta),
                         f_res = (if ?gR then res else 0),
                         f_data = payload, f_dataAccessed = False\<rparr>,
                   d\<lparr>d_r := Source rest\<rparr>)"
      unfolding key by (simp add: buffer_exact)
  next
    assume a: "makeslice_ok 1 size' \<and> length tail < unat size'"
    then have "ReadFull (Source tail) (unat size')
                 = (tail, Some (if tail = [] then EOF else ErrUnexpectedEOF), Source [])"
      by (auto simp: ReadFull_Source)
    with a show "readFrame c (Some mh) d =
              Inr (Inl (if tail = [] then EOF else ErrUnexpectedEOF),
                   d\<lparr>d_r := Source [],
                     d_err := Some (if tail = [] then EOF else ErrUnexpectedEOF)\<rparr>)"
      unfolding key by simp
  next
    assume "\<not> makeslice_ok 1 size'"
    then show "readFrame c (Some mh) d = Inl MakesliceLenOutOfRange"
      unfolding key by simp
  qed
qed

definition exampleFrameHeader :: mainHeader where
  "exampleFrameHeader = \<lparr>Version = 3, MinorVersion = 0, StreamCount = 1, MaxDistance = 0,
     TimeBases = [],
     Frames = replicate 256
       (zeroFrameInfo\<lparr>fi_flags := flagCoded, fi_mul := 3, fi_lsb := 1, fi_streamID := 9\<rparr>),
     Flags = 0\<rparr>"

theorem frame_fields_in_order_witness:
  "readFrame 0x05 (Some exampleFrameHeader)
     \<lparr>d_r = Source [0x99, 0x78, 0x02, 0x05, 0x01, 0x02, 0x07, 0x02, 0x0A, 0x81, 0x00,
                     0xDE, 0xAD, 0xBE, 0xEF, 0x01, 0x02, 0x03, 0x04, 0xFF],
      d_mainHeader = Some exampleFrameHeader, d_err = None, readHeaderOnce = True\<rparr>
     = Inr (Inr \<lparr>f_streamID = 2, f_codedPTS = 5, f_dataSizeMsb = 1, f_matchTimeDelta = - 1,
                 f_headerIdx = 7, f_res = 2, f_data = [0x01, 0x02, 0x03, 0x04],
                 f_dataAccessed = False\<rparr>,
            \<lparr>d_r = Source [0xFF], d_mainHeader = Some exampleFrameHeader, d_err = None,
             readHeaderOnce = True\<rparr>) \<and>
   readFrame 0x05 (Some exampleFrameHeader)
     \<lparr>d_r = Source [0x00, 0xAA, 0xBB],
      d_mainHeader = Some exampleFrameHeader, d_err = None, readHeaderOnce = True\<rparr>
     = Inr (Inr \<lparr>f_streamID = 9, f_codedPTS = 0, f_dataSizeMsb = 0, f_matchTimeDelta = 0,
                 f_headerIdx = 0, f_res = 0, f_data = [0xAA],
                 f_dataAccessed = False\<rparr>,
            \<lparr>d_r = Source [0xBB], d_mainHeader = Some exampleFrameHeader, d_err = None,
             readHeaderOnce = True\<rparr>)"
proof
  have enc: "uvarintBytes [0x0A] 10" "uvarintBytes [0x81, 0x00] 128"
    by code_simp+
  have all: "\<forall>f \<in> set [[0x0A], [0x81, 0x00]]. \<exists>x. uvarintBytes f x"
    using enc by auto
  show "readFrame 0x05 (Some exampleFrameHeader)
     \<lparr>d_r = Source [0x99, 0x78, 0x02, 0x05, 0x01, 0x02, 0x07, 0x02, 0x0A, 0x81, 0x00,
                     0xDE, 0xAD, 0xBE, 0xEF, 0x01, 0x02, 0x03, 0x04, 0xFF],
      d_mainHeader = Some exampleFrameHeader, d_err = None, readHeaderOnce = True\<rparr>
     = Inr (Inr \<lparr>f_streamID = 2, f_codedPTS = 5, f_dataSizeMsb = 1, f_matchTimeDelta = - 1,
                 f_headerIdx = 7, f_res = 2, f_data = [0x01, 0x02, 0x03, 0x04],
                 f_dataAccessed = False\<rparr>,
            \<lparr>d_r = Source [0xFF], d_mainHeader = Some exampleFrameHeader, d_err = None,
             readHeaderOnce = True\<rparr>)"
    apply (rule trans [OF frame_fields_in_order
      [where cf = 3320
         and sid = 2 and pts = 5 and msb = 1 and mt = "- 1" and hidx = 7 and res = 2
         and bFlags = "[0x99, 0x78]" and bStream = "[0x02]" and bPts = "[0x05]"
         and bMsb = "[0x01]" and bMatch = "[0x02]" and bHidx = "[0x07]" and bRes = "[0x02]"
         and reserved = "[[0x0A], [0x81, 0x00]]" and csum = "[0xDE, 0xAD, 0xBE, 0xEF]"
         and tail = "[0x01, 0x02, 0x03, 0x04, 0xFF]" and payload = "[0x01, 0x02, 0x03, 0x04]"
         and rest = "[0xFF]",
       THEN conjunct1, THEN mp]])
                apply code_simp
               apply code_simp
              apply code_simp
             apply code_simp
            apply code_simp
           apply code_simp
          apply code_simp
         apply code_simp
        apply (intro impI conjI)
          apply code_simp
         apply code_simp
        apply (rule all)
       apply code_simp
      apply code_simp
     apply code_simp
    apply code_simp
    done
next
  show "readFrame 0x05 (Some exampleFrameHeader)
     \<lparr>d_r = Source [0x00, 0xAA, 0xBB],
      d_mainHeader = Some exampleFrameHeader, d_err = None, readHeaderOnce = True\<rparr>
     = Inr (Inr \<lparr>f_streamID = 9, f_codedPTS = 0, f_dataSizeMsb = 0, f_matchTimeDelta = 0,
                 f_headerIdx = 0, f_res = 0, f_data = [0xAA],
                 f_dataAccessed = False\<rparr>,
            \<lparr>d_r = Source [0xBB], d_mainHeader = Some exampleFrameHeader, d_err = None,
             readHeaderOnce = True\<rparr>)"
    apply (rule trans [OF frame_fields_in_order
      [where cf = 0 and bFlags = "[0x00]" and reserved = "[]"
         and tail = "[0xAA, 0xBB]" and payload = "[0xAA]" and rest = "[0xBB]",
       THEN conjunct1, THEN mp]])
                apply code_simp
               apply code_simp
              apply code_simp
             apply code_simp
            apply code_simp
           apply code_simp
          apply code_simp
         apply code_simp
        apply code_simp
       apply code_simp
      apply code_simp
     apply code_simp
    apply code_simp
    done
qed

end
